theory Spec2Isabelle
  imports Complex_Main
begin

section \<open>Python values used by the persistence layer\<close>

text \<open>
  A Python \<open>str\<close> is a sequence of Unicode code points, and \<open>len\<close> counts code points.
  Strings are therefore lists of code points; \<open>ustr\<close> embeds an ASCII literal.  The
  separator of expiring entries is the single code point U+241F.
\<close>

type_synonym pystr = "nat list"

definition ustr :: "string \<Rightarrow> pystr" where
  "ustr s = map of_char s"

definition usep :: nat where
  "usep = 9247"

text \<open>
  A Python \<open>float\<close> is a finite binary fraction, an infinity or NaN.  The finite values
  are kept as rationals, so that comparisons are the exact ones Python performs.
\<close>

datatype pyfloat = Fin rat | PInf | NInf | NaN

text \<open>\<open>time.time() > d\<close> and \<open>time.time() <= d\<close> for a finite clock reading \<open>t\<close>.\<close>

fun time_gt :: "rat \<Rightarrow> pyfloat \<Rightarrow> bool" where
  "time_gt t (Fin d) = (t > d)"
| "time_gt t PInf = False"
| "time_gt t NInf = True"
| "time_gt t NaN = False"

fun time_le :: "rat \<Rightarrow> pyfloat \<Rightarrow> bool" where
  "time_le t (Fin d) = (t \<le> d)"
| "time_le t PInf = True"
| "time_le t NInf = False"
| "time_le t NaN = False"

datatype exn = ValueError | KeyError | TypeError | IndexError

datatype json =
    JNull
  | JBool bool
  | JInt int
  | JFloat pyfloat
  | JStr pystr
  | JList "json list"
  | JDict "(pystr \<times> json) list"

text \<open>\<open>s.split(c)\<close> for a one-character separator: never empty, one more piece than
  there are separators.\<close>

fun py_split :: "nat \<Rightarrow> pystr \<Rightarrow> pystr list" where
  "py_split c [] = [[]]"
| "py_split c (x # xs) =
     (if x = c then [] # py_split c xs
      else (case py_split c xs of
              [] \<Rightarrow> [[x]]
            | w # ws \<Rightarrow> (x # w) # ws))"

text \<open>\<open>x[k] = v\<close> on a dict: an existing key keeps its position, a new key goes last.\<close>

fun dict_set :: "('k \<times> 'v) list \<Rightarrow> 'k \<Rightarrow> 'v \<Rightarrow> ('k \<times> 'v) list" where
  "dict_set [] k v = [(k, v)]"
| "dict_set ((k', v') # x) k v =
     (if k' = k then (k, v) # x else (k', v') # dict_set x k v)"

section \<open>era/gdata.py: the expiry normalizer\<close>

text \<open>
  \<open>float\<close> is Python's built-in parser of a string into a float; it is a parameter
  \<open>pf\<close> of the model, with \<open>None\<close> for the strings on which it raises ValueError.
  The clock reading \<open>time.time()\<close> is the parameter \<open>t\<close>.  Python's \<open>None\<close> and
  JSON's null are the same value, \<open>JNull\<close>.
\<close>

definition gdata_update_str :: "(pystr \<Rightarrow> pyfloat option) \<Rightarrow> rat \<Rightarrow> pystr \<Rightarrow> exn + json" where
  "gdata_update_str pf t s =
     (let ss = py_split usep s in
      if length ss \<noteq> 1 then
        (case pf (ss ! 1) of
           None \<Rightarrow> Inl ValueError
         | Some d \<Rightarrow> Inr (if time_gt t d then JNull else JStr s))
      else Inr (JStr s))"

text \<open>\<open>if v is not None: x[k] = v\<close> and \<open>if e is not None: x.append(e)\<close>.\<close>

definition keep_item :: "(pystr \<times> json) list \<Rightarrow> pystr \<Rightarrow> json \<Rightarrow> (pystr \<times> json) list" where
  "keep_item x k v = (if v \<noteq> JNull then dict_set x k v else x)"

definition keep_elem :: "json list \<Rightarrow> json \<Rightarrow> json list" where
  "keep_elem x e = (if e \<noteq> JNull then x @ [e] else x)"

function (sequential)
  gdata_update_dict :: "(pystr \<Rightarrow> pyfloat option) \<Rightarrow> rat \<Rightarrow> (pystr \<times> json) list
      \<Rightarrow> (pystr \<times> json) list \<Rightarrow> exn + (pystr \<times> json) list"
and
  gdata_update_list :: "(pystr \<Rightarrow> pyfloat option) \<Rightarrow> rat \<Rightarrow> json list
      \<Rightarrow> json list \<Rightarrow> exn + json list"
where
  "gdata_update_dict pf t [] x = Inr x"
| "gdata_update_dict pf t ((k, JDict v) # d) x =
     (case gdata_update_dict pf t v [] of
        Inl err \<Rightarrow> Inl err
      | Inr v' \<Rightarrow> gdata_update_dict pf t d (keep_item x k (JDict v')))"
| "gdata_update_dict pf t ((k, JList v) # d) x =
     (case gdata_update_list pf t v [] of
        Inl err \<Rightarrow> Inl err
      | Inr v' \<Rightarrow> gdata_update_dict pf t d (keep_item x k (JList v')))"
| "gdata_update_dict pf t ((k, JStr v) # d) x =
     (case gdata_update_str pf t v of
        Inl err \<Rightarrow> Inl err
      | Inr v' \<Rightarrow> gdata_update_dict pf t d (keep_item x k v'))"
| "gdata_update_dict pf t ((k, v) # d) x = gdata_update_dict pf t d (keep_item x k v)"
| "gdata_update_list pf t [] x = Inr x"
| "gdata_update_list pf t (JList e # li) x =
     (case gdata_update_list pf t e [] of
        Inl err \<Rightarrow> Inl err
      | Inr e' \<Rightarrow> gdata_update_list pf t li (keep_elem x (JList e')))"
| "gdata_update_list pf t (JDict e # li) x =
     (case gdata_update_dict pf t e [] of
        Inl err \<Rightarrow> Inl err
      | Inr e' \<Rightarrow> gdata_update_list pf t li (keep_elem x (JDict e')))"
| "gdata_update_list pf t (JStr e # li) x =
     (case gdata_update_str pf t e of
        Inl err \<Rightarrow> Inl err
      | Inr e' \<Rightarrow> gdata_update_list pf t li (keep_elem x e'))"
| "gdata_update_list pf t (e # li) x = gdata_update_list pf t li (keep_elem x e)"
  by pat_completeness auto
termination
  by (relation "measure (\<lambda>a. case a of
          Inl (pf, t, d, x) \<Rightarrow> size (JDict d)
        | Inr (pf, t, li, x) \<Rightarrow> size (JList li))") auto

fun gdata_update :: "(pystr \<Rightarrow> pyfloat option) \<Rightarrow> rat \<Rightarrow> json \<Rightarrow> exn + json" where
  "gdata_update pf t (JDict a) = map_sum id JDict (gdata_update_dict pf t a [])"
| "gdata_update pf t (JList a) = map_sum id JList (gdata_update_list pf t a [])"
| "gdata_update pf t (JStr a) = gdata_update_str pf t a"
| "gdata_update pf t a = Inr a"

section \<open>era/gdata.py: paths, write and load\<close>

text \<open>
  A \<open>Path\<close> is the list of its components.  \<open>getpath\<close> splits the logical key at
  \<open>/\<close>; a first segment that starts with \<open>s\<close> loses that letter and is rooted under
  \<open>superdata/super_dir\<close>.  The data root \<open>base\<close> (two directories above the working
  directory, then \<open>bso_server_data\<close>) and the server's \<open>super_dir\<close> are parameters.
\<close>

definition gdata_getpath :: "pystr list \<Rightarrow> pystr \<Rightarrow> pystr \<Rightarrow> pystr list" where
  "gdata_getpath base super_dir stattype =
     (case py_split (of_char CHR ''/'') stattype of
        [] \<Rightarrow> base
      | s0 # segs \<Rightarrow>
          (let (base', stattype') =
                 (if s0 \<noteq> [] \<and> hd s0 = of_char CHR ''s''
                  then (base @ [ustr ''superdata'', super_dir], tl s0 # segs)
                  else (base, s0 # segs))
           in base' @ butlast stattype' @ [last stattype' @ ustr ''.json'']))"

text \<open>
  The file system is a map from paths to the JSON value each file holds.  \<open>write\<close>
  replaces the whole file.
\<close>

type_synonym 'p store = "'p \<Rightarrow> json option"

definition gdata_write :: "'p store \<Rightarrow> 'p \<Rightarrow> json \<Rightarrow> 'p store" where
  "gdata_write fs gorl data = fs(gorl \<mapsto> data)"

text \<open>
  \<open>stats[x]\<close> with a string key: a dict answers or raises KeyError; every other JSON
  value raises TypeError (a list, a string, a number, a boolean and \<open>None\<close> do not
  accept a string subscript).
\<close>

fun subscript :: "json \<Rightarrow> pystr \<Rightarrow> exn + json" where
  "subscript (JDict d) x = (case map_of d x of None \<Rightarrow> Inl KeyError | Some v \<Rightarrow> Inr v)"
| "subscript v x = Inl TypeError"

text \<open>The loop \<open>for x in args\<close> of \<open>load\<close>: only KeyError is caught.\<close>

fun drill :: "json \<Rightarrow> pystr list \<Rightarrow> exn + json" where
  "drill stats [] = Inr stats"
| "drill stats (x # args) =
     (case subscript stats x of
        Inl KeyError \<Rightarrow> Inr JNull
      | Inl err \<Rightarrow> Inl err
      | Inr v \<Rightarrow> drill v args)"

text \<open>\<open>load\<close> returns its result together with the file system it leaves behind.\<close>

definition gdata_load :: "(pystr \<Rightarrow> pyfloat option) \<Rightarrow> rat \<Rightarrow> 'p store \<Rightarrow> 'p \<Rightarrow> pystr list
    \<Rightarrow> bool \<Rightarrow> (exn + json) \<times> 'p store" where
  "gdata_load pf t fs gorl args update =
     (case fs gorl of
        None \<Rightarrow> (Inr JNull, fs)
      | Some stats \<Rightarrow>
          if update then
            (case gdata_update pf t stats of
               Inl err \<Rightarrow> (Inl err, fs)
             | Inr stats' \<Rightarrow> (drill stats' args, gdata_write fs gorl stats'))
          else (drill stats args, fs))"

subsection \<open>Notions used to state the properties of the persistence layer\<close>


text \<open>A string value whose piece after the first separator is not a float.\<close>

definition bad_expiry :: "(pystr \<Rightarrow> pyfloat option) \<Rightarrow> pystr \<Rightarrow> bool" where
  "bad_expiry pf s = (let ss = py_split usep s in length ss \<noteq> 1 \<and> pf (ss ! 1) = None)"

fun has_bad :: "(pystr \<Rightarrow> pyfloat option) \<Rightarrow> json \<Rightarrow> bool" where
  "has_bad pf (JStr s) = bad_expiry pf s"
| "has_bad pf (JList l) = (\<exists>e \<in> set l. has_bad pf e)"
| "has_bad pf (JDict d) = (\<exists>e \<in> snd ` set d. has_bad pf e)"
| "has_bad pf v = False"

text \<open>Numbers and booleans: the values no branch of the normalizer touches.\<close>

fun is_scalar :: "json \<Rightarrow> bool" where
  "is_scalar (JBool b) = True"
| "is_scalar (JInt n) = True"
| "is_scalar (JFloat f) = True"
| "is_scalar v = False"

text \<open>
  A parser to run the model on concrete inputs: it reads an unsigned decimal integer as
  \<open>float\<close> does, and rejects every other string (Python's \<open>float\<close> accepts more: signs,
  fractions, exponents, \<open>inf\<close>, \<open>nan\<close>).
\<close>

definition float_digits :: "pystr \<Rightarrow> pyfloat option" where
  "float_digits s =
     (if s \<noteq> [] \<and> list_all (\<lambda>c. 48 \<le> c \<and> c \<le> 57) s
      then Some (Fin (of_nat (foldl (\<lambda>a c. 10 * a + (c - 48)) 0 s)))
      else None)"

text \<open>Invariants of the accumulators of the normalizer's two loops.\<close>

definition inv_dict :: "(pystr \<Rightarrow> pyfloat option) \<Rightarrow> rat \<Rightarrow> (pystr \<times> json) list \<Rightarrow> bool" where
  "inv_dict pf t x =
     (distinct (map fst x) \<and> (\<forall>v \<in> snd ` set x. v \<noteq> JNull \<and> gdata_update pf t v = Inr v))"

definition inv_list :: "(pystr \<Rightarrow> pyfloat option) \<Rightarrow> rat \<Rightarrow> json list \<Rightarrow> bool" where
  "inv_list pf t x = (\<forall>v \<in> set x. v \<noteq> JNull \<and> gdata_update pf t v = Inr v)"

definition idem_at :: "(pystr \<Rightarrow> pyfloat option) \<Rightarrow> rat \<Rightarrow> json \<Rightarrow> bool" where
  "idem_at pf t e = (\<forall>b. gdata_update pf t e = Inr b \<longrightarrow> gdata_update pf t b = Inr b)"

definition verr_at :: "(pystr \<Rightarrow> pyfloat option) \<Rightarrow> rat \<Rightarrow> json \<Rightarrow> bool" where
  "verr_at pf t e = (\<forall>err. gdata_update pf t e = Inl err \<longrightarrow> err = ValueError)"

text \<open>
  The normalizer as the specification words it, by recursion on the document: an
  expiring string whose deadline has passed becomes \<open>None\<close>; a dict or a list holds the
  normalized members that are not \<open>None\<close>, in their order.
\<close>

definition expired :: "(pystr \<Rightarrow> pyfloat option) \<Rightarrow> rat \<Rightarrow> pystr \<Rightarrow> bool" where
  "expired pf t s =
     (let ss = py_split usep s in
      length ss \<noteq> 1 \<and> (case pf (ss ! 1) of None \<Rightarrow> False | Some d \<Rightarrow> time_gt t d))"

fun purge :: "(pystr \<Rightarrow> pyfloat option) \<Rightarrow> rat \<Rightarrow> json \<Rightarrow> json" where
  "purge pf t (JStr s) = (if expired pf t s then JNull else JStr s)"
| "purge pf t (JList l) = JList (filter (\<lambda>e. e \<noteq> JNull) (map (purge pf t) l))"
| "purge pf t (JDict d) =
     JDict (filter (\<lambda>kv. snd kv \<noteq> JNull) (map (\<lambda>(k, v). (k, purge pf t v)) d))"
| "purge pf t v = v"

text \<open>A document as a Python dict holds it: no key twice in a dict, at any depth.\<close>

fun keys_distinct :: "json \<Rightarrow> bool" where
  "keys_distinct (JList l) = (\<forall>e \<in> set l. keys_distinct e)"
| "keys_distinct (JDict d) = (distinct (map fst d) \<and> (\<forall>e \<in> snd ` set d. keys_distinct e))"
| "keys_distinct v = True"

text \<open>A document with nothing to remove: at any depth, no expired string and no null
  member.\<close>

fun settled :: "(pystr \<Rightarrow> pyfloat option) \<Rightarrow> rat \<Rightarrow> json \<Rightarrow> bool" where
  "settled pf t (JStr s) = (\<not> expired pf t s)"
| "settled pf t (JList l) = (\<forall>e \<in> set l. e \<noteq> JNull \<and> settled pf t e)"
| "settled pf t (JDict d) = (\<forall>e \<in> snd ` set d. e \<noteq> JNull \<and> settled pf t e)"
| "settled pf t v = True"


text \<open>A second parser to run the model: \<open>float_digits\<close>, and the word \<open>nan\<close> read as
  Python's \<open>float\<close> reads it.\<close>

definition float_words :: "pystr \<Rightarrow> pyfloat option" where
  "float_words s = (if s = ustr ''nan'' then Some NaN else float_digits s)"

section \<open>bascenev1/_hooks.py: the chat-command dispatcher\<close>

text \<open>
  A call \<open>inform(tid, ttype, client_id, lang, v)\<close> is recorded as the message id, the
  severity and the substitution arguments.
\<close>

type_synonym notice = "string \<times> string \<times> pystr list"

text \<open>
  What a category handler of \<open>server_command\<close> does: it executes \<open>return True\<close> before
  the writes at the end of the \<open>try\<close> block, or it falls through to them with the
  documents it has mutated, or it raises.
\<close>

datatype 'a outcome =
    Returned "notice list"
  | Completed 'a "notice list"
  | Raised exn "notice list"

text \<open>
  The end of \<open>server_command\<close>: the documents are written only when the handler has
  fallen through; IndexError, ValueError and KeyError are caught and reported as
  \<open>genericError\<close>; any other exception leaves the function.
\<close>

datatype 'a effect =
    Effect "'a option" "notice list"
  | Uncaught exn

definition server_try :: "pystr \<Rightarrow> 'a outcome \<Rightarrow> 'a effect" where
  "server_try cat r =
     (case r of
        Returned ns \<Rightarrow> Effect None ns
      | Completed docs ns \<Rightarrow> Effect (Some docs) ns
      | Raised err ns \<Rightarrow>
          if err = IndexError \<or> err = ValueError \<or> err = KeyError
          then Effect None (ns @ [(''genericError'', ''error'', [cat])])
          else Uncaught err)"

text \<open>
  The head of \<open>server_command\<close>: a message that does not start with \<open>/\<close> is not a
  command; otherwise the rest is split at spaces and the empty pieces are removed.
\<close>

definition msg_splits_of :: "pystr \<Rightarrow> pystr list option" where
  "msg_splits_of msg =
     (case msg of
        [] \<Rightarrow> None
      | c # stripped_msg \<Rightarrow>
          if c = of_char CHR ''/''
          then Some (filter (\<lambda>w. w \<noteq> []) (py_split (of_char CHR '' '') stripped_msg))
          else None)"

text \<open>\<open>xs[i]\<close> for an index that is not negative.\<close>

definition py_index :: "'a list \<Rightarrow> nat \<Rightarrow> exn + 'a" where
  "py_index xs i = (if i < length xs then Inr (xs ! i) else Inl IndexError)"

text \<open>The fields of a player document that the handlers below read or write; the other
  fields stay in the extension of the record.\<close>

record plrdata =
  spoints :: int
  items :: "pystr list"
  equipped :: "pystr list"
  allianceidref :: "pystr option"

subsection \<open>The category \<open>equip\<close>\<close>

text \<open>\<open>o.split(sep)[0]\<close>, the identity of an item entry.\<close>

definition ident :: "pystr \<Rightarrow> pystr" where
  "ident entry = (case py_split usep entry of [] \<Rightarrow> [] | p # ps \<Rightarrow> p)"

text \<open>\<open>i.split(sep)[0].split('@')[1]\<close>, the category of an item entry.\<close>

definition category :: "pystr \<Rightarrow> exn + pystr" where
  "category entry =
     (case py_split (of_char CHR ''@'') (ident entry) of
        p # c # ps \<Rightarrow> Inr c
      | ps \<Rightarrow> Inl IndexError)"

text \<open>The search loop: the first entry whose identity is the wanted one.\<close>

fun find_item :: "pystr \<Rightarrow> pystr list \<Rightarrow> pystr option" where
  "find_item wanted [] = None"
| "find_item wanted (entry # entries) =
     (if ident entry = wanted then Some entry else find_item wanted entries)"

text \<open>
  The loop \<open>for i in plrdata['equipped']\<close>.  Its body removes from the list it runs
  over, and a Python list iterator is an index into the list as it is now: \<open>n\<close> is that
  index, and after a removal the next round reads position \<open>n + 1\<close> of the shortened list.
\<close>

function equip_loop :: "pystr \<Rightarrow> pystr \<Rightarrow> nat \<Rightarrow> pystr list \<Rightarrow> pystr list \<Rightarrow> notice list
    \<Rightarrow> exn \<times> notice list + pystr list \<times> pystr list \<times> notice list" where
  "equip_loop te scat n its eqp ns =
     (if n < length eqp then
        (let i = eqp ! n in
         if te \<noteq> i then
           (case category i of
              Inl err \<Rightarrow> Inl (err, ns)
            | Inr c \<Rightarrow>
                if scat = c
                then equip_loop te scat (Suc n) (its @ [i]) (remove1 i eqp)
                       (ns @ [(''unequipped'', ''success'', [i])])
                else equip_loop te scat (Suc n) its eqp ns)
         else equip_loop te scat (Suc n) its eqp ns)
      else Inr (its, eqp, ns))"
  by pat_completeness auto
termination
  by (relation "measure (\<lambda>(te, scat, n, its, eqp, ns). length eqp - n)")
     (auto simp: length_remove1)

declare equip_loop.simps [simp del]

definition equip_command :: "pystr list \<Rightarrow> 'a plrdata_scheme \<Rightarrow> 'a plrdata_scheme outcome" where
  "equip_command msg_splits plr =
     (if length msg_splits = 1 then Returned [(''equipUsage'', ''normal'', [])]
      else
        case py_index msg_splits 1 of
          Inl err \<Rightarrow> Raised err []
        | Inr scat \<Rightarrow>
       (case py_index msg_splits 2 of
          Inl err \<Rightarrow> Raised err []
        | Inr item \<Rightarrow>
       (let wanted = item @ ustr ''@'' @ scat;
            te = find_item wanted (items plr @ equipped plr)
        in if te = None \<or> te = Some []
              \<or> scat \<in> {ustr ''other'', ustr ''emote'', ustr ''powerup''}
           then Returned [(''unknownItemStatusE'', ''warning'', [wanted])]
           else
             case te of
               None \<Rightarrow> Returned [(''unknownItemStatusE'', ''warning'', [wanted])]
             | Some te \<Rightarrow>
            (case equip_loop te scat 0 (items plr) (equipped plr) [] of
               Inl (err, ns) \<Rightarrow> Raised err ns
             | Inr (its, eqp, ns) \<Rightarrow>
                 if te \<in> set its
                 then Completed (plr\<lparr>items := remove1 te its, equipped := eqp @ [te]\<rparr>)
                        (ns @ [(''equipped'', ''success'', [te])])
                 else if te \<in> set eqp
                 then Completed (plr\<lparr>items := its @ [te], equipped := remove1 te eqp\<rparr>)
                        (ns @ [(''unequipped'', ''success'', [te])])
                 else Raised ValueError ns))))"

subsection \<open>The category \<open>alliance\<close>: \<open>create\<close> and \<open>leave\<close>\<close>

text \<open>The fields of an alliance document that \<open>create\<close> and \<open>leave\<close> read or write.\<close>

record alliancedata =
  al_name :: pystr
  members :: "(pystr \<times> pystr) list"

text \<open>The documents the category \<open>alliance\<close> writes when it falls through: the name
  list, the player document and, when there is one, the alliance document at its path.\<close>

record 'a alliance_docs =
  d_nlist :: "pystr list"
  d_plrdata :: "'a plrdata_scheme"
  d_alliancedatapath :: "pystr list option"
  d_alliancedata :: "alliancedata option"

text \<open>Python's truth value of a JSON value.\<close>

fun truthy :: "json \<Rightarrow> bool" where
  "truthy JNull = False"
| "truthy (JBool b) = b"
| "truthy (JInt n) = (n \<noteq> 0)"
| "truthy (JFloat f) = (f \<noteq> Fin 0)"
| "truthy (JStr s) = (s \<noteq> [])"
| "truthy (JList l) = (l \<noteq> [])"
| "truthy (JDict d) = (d \<noteq> [])"

text \<open>
  The choice of the alliance id.  \<open>draws\<close> is the sequence of five-digit strings that
  the successive evaluations of the \<open>random.randint\<close> expression produce; the loop
  \<open>while gdata.load(...)\<close> takes the first whose document is absent or falsy.  Each probe
  is a \<open>load\<close> with normalization, so it may rewrite the file it reads and may raise.
  \<open>None\<close> stands for a loop that has used up \<open>draws\<close> without leaving.
\<close>

fun pick_id :: "(pystr \<Rightarrow> pyfloat option) \<Rightarrow> rat \<Rightarrow> pystr list \<Rightarrow> pystr
    \<Rightarrow> (pystr list) store \<Rightarrow> pystr list \<Rightarrow> ((exn + pystr) \<times> (pystr list) store) option" where
  "pick_id pf t base super_dir fs [] = None"
| "pick_id pf t base super_dir fs (allianceid # draws) =
     (case gdata_load pf t fs (gdata_getpath base super_dir (ustr ''galliances/'' @ allianceid))
             [] True of
        (Inl err, fs') \<Rightarrow> Some (Inl err, fs')
      | (Inr doc, fs') \<Rightarrow>
          if truthy doc then pick_id pf t base super_dir fs' draws
          else Some (Inr allianceid, fs'))"

text \<open>\<open>str(i)\<close> for an integer: its decimal digits, with a minus sign when negative.\<close>

fun str_nat :: "nat \<Rightarrow> pystr" where
  "str_nat n = (if n < 10 then [48 + n] else str_nat (n div 10) @ [48 + n mod 10])"

declare str_nat.simps [simp del]

definition str_int :: "int \<Rightarrow> pystr" where
  "str_int i = (if i < 0 then 45 # str_nat (nat (- i)) else str_nat (nat i))"

text \<open>
  \<open>isalnum\<close> and \<open>lower\<close> are the methods of Python's \<open>str\<close>, parameters of the model.
  The result is \<open>None\<close> when the id loop does not end, and otherwise the outcome together
  with the file system the probes leave behind.
\<close>

definition alliance_create :: "(pystr \<Rightarrow> bool) \<Rightarrow> (pystr \<Rightarrow> pystr) \<Rightarrow> (pystr \<Rightarrow> pyfloat option)
    \<Rightarrow> rat \<Rightarrow> pystr list \<Rightarrow> pystr \<Rightarrow> (pystr list) store \<Rightarrow> pystr list
    \<Rightarrow> pystr list \<Rightarrow> pystr \<Rightarrow> 'a plrdata_scheme \<Rightarrow> alliancedata option \<Rightarrow> pystr list
    \<Rightarrow> ('a alliance_docs outcome \<times> (pystr list) store) option" where
  "alliance_create isalnum lower pf t base super_dir fs draws msg_splits spid plr alliance nlist =
     (if alliance \<noteq> None then Some (Returned [(''alreadyInAlliance'', ''error'', [])], fs)
      else if spoints plr < 1000
      then Some (Returned [(''insufficientFunds'', ''error'', [str_int (1000 - spoints plr)]),
                           (''howToEarn'', ''normal'', [])], fs)
      else
        case py_index msg_splits 2 of
          Inl err \<Rightarrow> Some (Raised err [], fs)
        | Inr name \<Rightarrow>
            if \<not> isalnum name \<or> length msg_splits > 3
            then Some (Returned [(''isNotAlnum'', ''warning'', [])], fs)
            else if length name \<ge> 20
            then Some (Returned [(''tooLong'', ''warning'', [ustr ''20''])], fs)
            else if lower name \<in> set nlist
            then Some (Returned [(''nameTaken'', ''warning'', [])], fs)
            else
              case pick_id pf t base super_dir fs draws of
                None \<Rightarrow> None
              | Some (Inl err, fs') \<Rightarrow> Some (Raised err [], fs')
              | Some (Inr allianceid, fs') \<Rightarrow>
                  Some (Completed
                    \<lparr>d_nlist = nlist @ [lower name],
                     d_plrdata = plr\<lparr>allianceidref := Some allianceid,
                                      spoints := spoints plr - 1000\<rparr>,
                     d_alliancedatapath =
                       Some (gdata_getpath base super_dir (ustr ''galliances/'' @ allianceid)),
                     d_alliancedata = Some \<lparr>al_name = name, members = [(spid, ustr ''owner'')]\<rparr>\<rparr>
                    [(''allianceCreateSuccess'', ''success'', [])], fs'))"

text \<open>\<open>d[k]\<close>, \<open>d.pop(k)\<close> and the count of the members ranked owner.\<close>

definition dict_get :: "('k \<times> 'v) list \<Rightarrow> 'k \<Rightarrow> exn + 'v" where
  "dict_get d k = (case map_of d k of None \<Rightarrow> Inl KeyError | Some v \<Rightarrow> Inr v)"

definition dict_pop :: "('k \<times> 'v) list \<Rightarrow> 'k \<Rightarrow> ('k \<times> 'v) list" where
  "dict_pop d k = filter (\<lambda>kv. fst kv \<noteq> k) d"

fun ownercount :: "(pystr \<times> pystr) list \<Rightarrow> nat" where
  "ownercount [] = 0"
| "ownercount ((i, rank) # ms) =
     (if rank = ustr ''owner'' then ownercount ms + 1 else ownercount ms)"

definition alliance_leave :: "pystr \<Rightarrow> 'a plrdata_scheme \<Rightarrow> pystr list option
    \<Rightarrow> alliancedata option \<Rightarrow> pystr list \<Rightarrow> 'a alliance_docs outcome" where
  "alliance_leave spid plr alliancedatapath alliance nlist =
     (case alliance of
        None \<Rightarrow> Returned [(''notInAlliance'', ''error'', [])]
      | Some al \<Rightarrow>
          (case dict_get (members al) spid of
             Inl err \<Rightarrow> Raised err []
           | Inr rank \<Rightarrow>
               if rank = ustr ''owner'' \<and> ownercount (members al) = 1
               then Returned [(''allianceOwnerCantLeave'', ''error'', [])]
               else Completed
                 \<lparr>d_nlist = nlist,
                  d_plrdata = plr\<lparr>allianceidref := None\<rparr>,
                  d_alliancedatapath = alliancedatapath,
                  d_alliancedata = Some (al\<lparr>members := dict_pop (members al) spid\<rparr>)\<rparr>
                 [(''allianceLeaveSuccessful'', ''success'', [])]))"


text \<open>Stand-ins for \<open>str.isalnum\<close> and \<open>str.lower\<close> on ASCII strings, to run the model on
  concrete inputs.\<close>

definition ascii_isalnum :: "pystr \<Rightarrow> bool" where
  "ascii_isalnum s =
     (s \<noteq> [] \<and> list_all (\<lambda>c. (48 \<le> c \<and> c \<le> 57) \<or> (65 \<le> c \<and> c \<le> 90) \<or> (97 \<le> c \<and> c \<le> 122)) s)"

definition ascii_lower :: "pystr \<Rightarrow> pystr" where
  "ascii_lower s = map (\<lambda>c. if 65 \<le> c \<and> c \<le> 90 then c + 32 else c) s"

text \<open>A probe of the id loop that finds the id taken: the file exists and its document
  normalizes, without raising, to a truthy value.\<close>

definition probe_taken :: "(pystr \<Rightarrow> pyfloat option) \<Rightarrow> rat \<Rightarrow> 'p store \<Rightarrow> 'p \<Rightarrow> bool" where
  "probe_taken pf t fs p =
     (\<exists>doc doc'. fs p = Some doc \<and> gdata_update pf t doc = Inr doc' \<and> truthy doc')"




section \<open>bascenev1/_dualteamsession.py and _freeforallsession.py: leaderboard and leagues\<close>

text \<open>
  Both sessions run the same statements for every account \<open>pid\<close> that earns points
  (the variable \<open>spoints\<close> of the source, here \<open>earned\<close>: 12 in a team game, twice the
  award in a free-for-all).

  The top-players document maps \<open>end\<close> to the close of the window and every other key,
  an account id, to its points.  The values are Python numbers (integers, and a finite
  float for \<open>end\<close>); Python compares them by their exact value, so they are kept as
  rationals.  The rounding of the float sum \<open>time.time() + 2592000\<close> is not modelled.
\<close>

type_synonym topsdata = "(pystr \<times> rat) list"

text \<open>\<open>d.setdefault(k, v)\<close> and \<open>d[k]\<close> for a key known to be present.\<close>

definition dict_setdefault :: "('k \<times> 'v) list \<Rightarrow> 'k \<Rightarrow> 'v \<Rightarrow> ('k \<times> 'v) list" where
  "dict_setdefault d k v = (if k \<in> fst ` set d then d else d @ [(k, v)])"

definition dict_value :: "('k \<times> 'v) list \<Rightarrow> 'k \<Rightarrow> 'v \<Rightarrow> 'v" where
  "dict_value d k dflt = (case map_of d k of None \<Rightarrow> dflt | Some v \<Rightarrow> v)"

text \<open>
  \<open>dict(sorted(d.items(), key=lambda x: x[1], reverse=True))\<close>: Python's sort is stable
  also with \<open>reverse=True\<close>, so this is the stable sort by the negated value.
\<close>

definition sorted_desc :: "('k \<times> 'v::{linorder,uminus}) list \<Rightarrow> ('k \<times> 'v) list" where
  "sorted_desc d = sort_key (\<lambda>x. - snd x) d"

text \<open>
  The update of the top-players document by one account.  The argument is what
  \<open>gdata.load\<close> returned, \<open>None\<close> when there is no file.  The result is the document
  written, and the bonus added to the player documents of the first three accounts when
  the window has closed.
\<close>

definition tops_update :: "rat \<Rightarrow> pystr \<Rightarrow> int \<Rightarrow> topsdata option
    \<Rightarrow> topsdata \<times> (pystr \<times> int) list" where
  "tops_update t pid earned loaded =
     (let topsdata = (case loaded of None \<Rightarrow> [] | Some d \<Rightarrow> d);
          topsdata = dict_setdefault topsdata (ustr ''end'') 0;
          (topsdata, bonus) =
            (if dict_value topsdata (ustr ''end'') 0 < t
             then (let tl = remove1 (ustr ''end'') (map fst topsdata)
                   in ([(ustr ''end'', t + 2592000)], zip (take 3 tl) [10000, 5000, 2500]))
             else (topsdata, []));
          topsdata = dict_setdefault topsdata pid 0;
          topsdata = dict_set topsdata pid (dict_value topsdata pid 0 + of_int earned)
      in (sorted_desc topsdata, bonus))"

text \<open>
  The leagues document: the close of the weekly window and six tiers, each a dict from
  account id to points, tier 0 the highest.
\<close>

record leaguesdata =
  l_end :: rat
  leagues :: "(pystr \<times> int) list list"

text \<open>\<open>gdata.load(...) or {}\<close> followed by the two \<open>setdefault\<close> calls; a stored
  document is taken to hold both keys.\<close>

definition leagues_defaults :: "leaguesdata option \<Rightarrow> leaguesdata" where
  "leagues_defaults loaded =
     (case loaded of
        None \<Rightarrow> \<lparr>l_end = 0, leagues = replicate 6 []\<rparr>
      | Some d \<Rightarrow> d)"

text \<open>
  The tier a player goes to at the close of the window: \<open>lpi\<close> is the player's position
  in the old tier \<open>l\<close>, counted from 1, and \<open>tlp\<close> the size of that tier.  The source
  compares the float \<open>lpi / tlp\<close> with 0.5; Python rounds the quotient of two integers
  correctly and 0.5 is a float, so for every tier of fewer than \<open>2^53\<close> players the
  comparison is that of \<open>2 * lpi\<close> with \<open>tlp\<close>.
\<close>

definition place :: "nat \<Rightarrow> nat \<Rightarrow> nat \<Rightarrow> nat" where
  "place l lpi tlp =
     (if l \<noteq> 0 \<and> 2 * lpi < tlp then l - 1
      else if l \<noteq> 5 \<and> 2 * lpi > tlp then l + 1
      else l)"

text \<open>\<open>nleaguesdata['leagues'][k][lplr] = 0\<close>.\<close>

definition assign_tier :: "(pystr \<times> int) list list \<Rightarrow> nat \<Rightarrow> pystr
    \<Rightarrow> exn + (pystr \<times> int) list list" where
  "assign_tier n k lplr =
     (if k < length n then Inr (n[k := dict_set (n ! k) lplr 0]) else Inl IndexError)"

text \<open>The inner loop over the players of one old tier, and the outer loop over the
  old tiers.\<close>

fun move_players :: "nat \<Rightarrow> nat \<Rightarrow> nat \<Rightarrow> pystr list \<Rightarrow> (pystr \<times> int) list list
    \<Rightarrow> exn + (pystr \<times> int) list list" where
  "move_players l tlp lpi [] n = Inr n"
| "move_players l tlp lpi (lplr # lplrs) n =
     (case assign_tier n (place l lpi tlp) lplr of
        Inl err \<Rightarrow> Inl err
      | Inr n' \<Rightarrow> move_players l tlp (Suc lpi) lplrs n')"

fun move_tiers :: "nat \<Rightarrow> (pystr \<times> int) list list \<Rightarrow> (pystr \<times> int) list list
    \<Rightarrow> exn + (pystr \<times> int) list list" where
  "move_tiers l [] n = Inr n"
| "move_tiers l (league # rest) n =
     (case move_players l (length league) 1 (map fst league) n of
        Inl err \<Rightarrow> Inl err
      | Inr n' \<Rightarrow> move_tiers (Suc l) rest n')"

text \<open>The body of \<open>if leaguesdata['end'] < time.time()\<close>: the document it writes.\<close>

definition leagues_rollover :: "rat \<Rightarrow> leaguesdata \<Rightarrow> exn + leaguesdata" where
  "leagues_rollover t leaguesdata =
     (case move_tiers 0 (leagues leaguesdata) (replicate 6 []) of
        Inl err \<Rightarrow> Inl err
      | Inr n \<Rightarrow> Inr \<lparr>l_end = t + 604800, leagues = n[5 := []]\<rparr>)"

text \<open>The search for the tier of \<open>pid\<close>, and the award of the points in that tier.\<close>

fun find_league :: "pystr \<Rightarrow> (pystr \<times> int) list list \<Rightarrow> nat \<Rightarrow> nat option" where
  "find_league pid [] lei = None"
| "find_league pid (league # rest) lei =
     (if pid \<in> set (map fst league) then Some lei else find_league pid rest (Suc lei))"

definition leagues_award :: "pystr \<Rightarrow> int \<Rightarrow> leaguesdata \<Rightarrow> exn + leaguesdata" where
  "leagues_award pid earned leaguesdata =
     (let le = (case find_league pid (leagues leaguesdata) 0 of None \<Rightarrow> 5 | Some lei \<Rightarrow> lei)
      in if le < length (leagues leaguesdata) then
           (let league = dict_setdefault (leagues leaguesdata ! le) pid 0;
                league = dict_set league pid (dict_value league pid 0 + earned)
            in Inr (leaguesdata\<lparr>leagues := (leagues leaguesdata)[le := sorted_desc league]\<rparr>))
         else Inl IndexError)"

text \<open>
  The update of the leagues document by one account: the documents written to
  \<open>gleagues\<close>, in order, and the document the statements end with, or the exception.
\<close>

definition update_leagues :: "rat \<Rightarrow> pystr \<Rightarrow> int \<Rightarrow> leaguesdata option
    \<Rightarrow> leaguesdata list \<times> (exn + leaguesdata)" where
  "update_leagues t pid earned loaded =
     (let leaguesdata = leagues_defaults loaded in
      if l_end leaguesdata < t then
        (case leagues_rollover t leaguesdata of
           Inl err \<Rightarrow> ([], Inl err)
         | Inr nleaguesdata \<Rightarrow>
             (case leagues_award pid earned nleaguesdata of
                Inl err \<Rightarrow> ([nleaguesdata], Inl err)
              | Inr final \<Rightarrow> ([nleaguesdata, final], Inr final)))
      else
        (case leagues_award pid earned leaguesdata of
           Inl err \<Rightarrow> ([], Inl err)
         | Inr final \<Rightarrow> ([final], Inr final)))"

text \<open>A ladder in good order: no account twice in a tier, none in two tiers.\<close>

definition tier_keys :: "(pystr \<times> int) list list \<Rightarrow> nat \<Rightarrow> pystr set" where
  "tier_keys n k = fst ` set (n ! k)"

definition tiers_wf :: "(pystr \<times> int) list list \<Rightarrow> bool" where
  "tiers_wf n = (\<forall>a < length n. distinct (map fst (n ! a)))"

definition tiers_disjoint :: "(pystr \<times> int) list list \<Rightarrow> bool" where
  "tiers_disjoint n =
     (\<forall>a < length n. \<forall>b < length n. a \<noteq> b \<longrightarrow> tier_keys n a \<inter> tier_keys n b = {})"

definition tiers_zero :: "(pystr \<times> int) list list \<Rightarrow> bool" where
  "tiers_zero n = (\<forall>a < length n. \<forall>kv \<in> set (n ! a). snd kv = 0)"

text \<open>The accounts of the old tiers that the close of the window sends to tier \<open>k\<close>.\<close>

definition sent_to :: "(pystr \<times> int) list list \<Rightarrow> nat \<Rightarrow> nat \<Rightarrow> pystr set" where
  "sent_to old l0 k =
     {p. \<exists>a i. a < length old \<and> i < length (old ! a) \<and> p = fst (old ! a ! i)
           \<and> place (l0 + a) (Suc i) (length (old ! a)) = k}"

section \<open>Properties of the expiry normalizer\<close>

lemma py_split_ne: "py_split c xs \<noteq> []"
  by (induction xs) (auto split: list.splits)

lemma py_split_nosep: "c \<notin> set xs \<Longrightarrow> py_split c xs = [xs]"
  by (induction xs) auto

lemma py_split_first: "c \<notin> set x \<Longrightarrow> py_split c (x @ c # d) = x # py_split c d"
  by (induction x) auto

lemma py_split_length_one: "(length (py_split c s) = 1) = (c \<notin> set s)"
proof (induction s)
  case Nil
  show ?case by simp
next
  case (Cons a s)
  show ?case
  proof (cases "a = c")
    case True
    then show ?thesis using py_split_ne [of c s] by (cases "py_split c s") auto
  next
    case False
    then show ?thesis using Cons py_split_ne [of c s]
      by (cases "py_split c s") auto
  qed
qed

lemma update_str_nosep: "usep \<notin> set s \<Longrightarrow> gdata_update_str pf t s = Inr (JStr s)"
  by (simp add: gdata_update_str_def py_split_nosep)

lemma update_str_expiry:
  assumes "usep \<notin> set x" and "usep \<notin> set d" and "pf d = Some dv"
  shows "gdata_update_str pf t (x @ usep # d) =
           Inr (if time_gt t dv then JNull else JStr (x @ usep # d))"
  using assms by (simp add: gdata_update_str_def py_split_first py_split_nosep)

lemma time_le_gt: "dv \<noteq> NaN \<Longrightarrow> time_le t dv = (\<not> time_gt t dv)"
  by (cases dv) auto

lemma dict_set_fresh: "k \<notin> fst ` set x \<Longrightarrow> dict_set x k v = x @ [(k, v)]"
  by (induction x) auto

lemma dict_set_subset: "set (dict_set x k v) \<subseteq> insert (k, v) (set x)"
  by (induction x) (auto split: if_splits)

lemma dict_set_map_fst:
  "map fst (dict_set x k v) = (if k \<in> fst ` set x then map fst x else map fst x @ [k])"
proof (induction x)
  case Nil
  show ?case by simp
next
  case (Cons a x)
  obtain k' v' where a: "a = (k', v')" by (cases a)
  show ?case
  proof (cases "k' = k")
    case True
    with a show ?thesis by simp
  next
    case False
    with a Cons show ?thesis by simp
  qed
qed

lemma dict_set_keys: "fst ` set (dict_set x k v) = insert k (fst ` set x)"
proof -
  have "set (map fst (dict_set x k v)) = insert k (set (map fst x))"
    unfolding dict_set_map_fst by auto
  then show ?thesis by simp
qed

lemma dict_set_distinct: "distinct (map fst x) \<Longrightarrow> distinct (map fst (dict_set x k v))"
  unfolding dict_set_map_fst by auto

lemma inv_dict_set:
  assumes "inv_dict pf t x" and "v \<noteq> JNull" and "gdata_update pf t v = Inr v"
  shows "inv_dict pf t (dict_set x k v)"
proof -
  have "snd ` set (dict_set x k v) \<subseteq> insert v (snd ` set x)"
    using dict_set_subset [of x k v] by force
  with assms dict_set_distinct [of x k v] show ?thesis
    unfolding inv_dict_def by blast
qed

lemma inv_keep_item:
  "inv_dict pf t x \<Longrightarrow> gdata_update pf t v = Inr v \<Longrightarrow> inv_dict pf t (keep_item x k v)"
  by (simp add: keep_item_def inv_dict_set)

lemma inv_keep_elem:
  "inv_list pf t x \<Longrightarrow> gdata_update pf t v = Inr v \<Longrightarrow> inv_list pf t (keep_elem x v)"
  by (simp add: keep_elem_def inv_list_def)

lemma update_dict_fixed:
  "inv_dict pf t r \<Longrightarrow> distinct (map fst (x @ r)) \<Longrightarrow> gdata_update_dict pf t r x = Inr (x @ r)"
proof (induction r arbitrary: x)
  case Nil
  show ?case by simp
next
  case (Cons a r)
  obtain k v where a: "a = (k, v)" by (cases a)
  from Cons.prems a have v: "v \<noteq> JNull" "gdata_update pf t v = Inr v"
    and r: "inv_dict pf t r" and k: "k \<notin> fst ` set x"
    and d: "distinct (map fst ((x @ [(k, v)]) @ r))"
    by (auto simp: inv_dict_def)
  have keep: "keep_item x k v = x @ [(k, v)]"
    using v k by (simp add: keep_item_def dict_set_fresh)
  have rest: "gdata_update_dict pf t r (x @ [(k, v)]) = Inr (x @ a # r)"
    using Cons.IH [OF r d] a by simp
  show ?case
  proof (cases v)
    case (JDict d')
    with v have "gdata_update_dict pf t d' [] = Inr d'"
      by (cases "gdata_update_dict pf t d' []") auto
    with JDict a keep rest show ?thesis by simp
  next
    case (JList l')
    with v have "gdata_update_list pf t l' [] = Inr l'"
      by (cases "gdata_update_list pf t l' []") auto
    with JList a keep rest show ?thesis by simp
  next
    case (JStr s)
    with v have "gdata_update_str pf t s = Inr (JStr s)" by simp
    with JStr a keep rest show ?thesis by simp
  qed (use v a keep rest in auto)
qed

lemma update_list_fixed:
  "inv_list pf t r \<Longrightarrow> gdata_update_list pf t r x = Inr (x @ r)"
proof (induction r arbitrary: x)
  case Nil
  show ?case by simp
next
  case (Cons v r)
  from Cons.prems have v: "v \<noteq> JNull" "gdata_update pf t v = Inr v"
    and r: "inv_list pf t r"
    by (auto simp: inv_list_def)
  have keep: "keep_elem x v = x @ [v]"
    using v by (simp add: keep_elem_def)
  have rest: "gdata_update_list pf t r (x @ [v]) = Inr (x @ v # r)"
    using Cons.IH [OF r] by simp
  show ?case
  proof (cases v)
    case (JDict d')
    with v have "gdata_update_dict pf t d' [] = Inr d'"
      by (cases "gdata_update_dict pf t d' []") auto
    with JDict keep rest show ?thesis by simp
  next
    case (JList l')
    with v have "gdata_update_list pf t l' [] = Inr l'"
      by (cases "gdata_update_list pf t l' []") auto
    with JList keep rest show ?thesis by simp
  next
    case (JStr s)
    with v have "gdata_update_str pf t s = Inr (JStr s)" by simp
    with JStr keep rest show ?thesis by simp
  qed (use v keep rest in auto)
qed

lemma update_str_result:
  "gdata_update_str pf t s = Inr v \<Longrightarrow> v = JNull \<or> (v = JStr s \<and> gdata_update_str pf t s = Inr (JStr s))"
  by (auto simp: gdata_update_str_def Let_def split: if_splits option.splits)

lemma inv_dict_Nil: "inv_dict pf t []" by (simp add: inv_dict_def)
lemma inv_list_Nil: "inv_list pf t []" by (simp add: inv_list_def)


lemma update_list_step:
  "gdata_update_list pf t (e # li) x =
     (case gdata_update pf t e of
        Inl err \<Rightarrow> Inl err
      | Inr e' \<Rightarrow> gdata_update_list pf t li (keep_elem x e'))"
proof (cases e)
  case (JDict d)
  then show ?thesis by (cases "gdata_update_dict pf t d []") simp_all
next
  case (JList l)
  then show ?thesis by (cases "gdata_update_list pf t l []") simp_all
next
  case (JStr s)
  then show ?thesis by simp
qed simp_all

lemma update_dict_step:
  "gdata_update_dict pf t ((k, e) # d) x =
     (case gdata_update pf t e of
        Inl err \<Rightarrow> Inl err
      | Inr e' \<Rightarrow> gdata_update_dict pf t d (keep_item x k e'))"
proof (cases e)
  case (JDict d')
  then show ?thesis by (cases "gdata_update_dict pf t d' []") simp_all
next
  case (JList l)
  then show ?thesis by (cases "gdata_update_list pf t l []") simp_all
next
  case (JStr s)
  then show ?thesis by simp
qed simp_all

lemma idem_atD: "idem_at pf t e \<Longrightarrow> gdata_update pf t e = Inr b \<Longrightarrow> gdata_update pf t b = Inr b"
  unfolding idem_at_def by blast

lemma update_list_inv:
  assumes "\<forall>e \<in> set li. idem_at pf t e"
    and "gdata_update_list pf t li x = Inr r" and "inv_list pf t x"
  shows "inv_list pf t r"
  using assms
proof (induction li arbitrary: x)
  case Nil
  then show ?case by simp
next
  case (Cons e li)
  from Cons.prems(1) have tl: "\<forall>e \<in> set li. idem_at pf t e" and hd: "idem_at pf t e"
    by simp_all
  obtain e' where e': "gdata_update pf t e = Inr e'"
    and rest: "gdata_update_list pf t li (keep_elem x e') = Inr r"
    using Cons.prems(2) unfolding update_list_step by (cases "gdata_update pf t e") simp_all
  from idem_atD [OF hd e'] Cons.prems(3) have "inv_list pf t (keep_elem x e')"
    by (rule inv_keep_elem [rotated])
  from Cons.IH [OF tl rest this] show ?case .
qed

lemma update_dict_inv:
  assumes "\<forall>e \<in> snd ` set d. idem_at pf t e"
    and "gdata_update_dict pf t d x = Inr r" and "inv_dict pf t x"
  shows "inv_dict pf t r"
  using assms
proof (induction d arbitrary: x)
  case Nil
  then show ?case by simp
next
  case (Cons a d)
  obtain k e where a: "a = (k, e)" by (cases a)
  from Cons.prems(1) have tl: "\<forall>e \<in> snd ` set d. idem_at pf t e" and hd: "idem_at pf t e"
    unfolding a by simp_all
  obtain e' where e': "gdata_update pf t e = Inr e'"
    and rest: "gdata_update_dict pf t d (keep_item x k e') = Inr r"
    using Cons.prems(2) unfolding a update_dict_step by (cases "gdata_update pf t e") simp_all
  from idem_atD [OF hd e'] Cons.prems(3) have "inv_dict pf t (keep_item x k e')"
    by (rule inv_keep_item [rotated])
  from Cons.IH [OF tl rest this] show ?case .
qed

lemma update_idem_at: "idem_at pf t a"
proof (induction a)
  case (JDict d)
  have elems: "\<forall>e \<in> snd ` set d. idem_at pf t e"
  proof
    fix e assume "e \<in> snd ` set d"
    then obtain k where kv: "(k, e) \<in> set d" by force
    show "idem_at pf t e" using JDict.IH [OF kv] by simp
  qed
  show ?case unfolding idem_at_def
  proof (intro allI impI)
    fix b assume res: "gdata_update pf t (JDict d) = Inr b"
    then obtain r where r: "gdata_update_dict pf t d [] = Inr r" and b: "b = JDict r"
      by (cases "gdata_update_dict pf t d []") simp_all
    from update_dict_inv [OF elems r inv_dict_Nil] have "inv_dict pf t r" .
    then have "gdata_update_dict pf t r [] = Inr r"
      using update_dict_fixed [of pf t r "[]"] by (simp add: inv_dict_def)
    with b show "gdata_update pf t b = Inr b" by simp
  qed
next
  case (JList l)
  have elems: "\<forall>e \<in> set l. idem_at pf t e" using JList.IH by blast
  show ?case unfolding idem_at_def
  proof (intro allI impI)
    fix b assume res: "gdata_update pf t (JList l) = Inr b"
    then obtain r where r: "gdata_update_list pf t l [] = Inr r" and b: "b = JList r"
      by (cases "gdata_update_list pf t l []") simp_all
    from update_list_inv [OF elems r inv_list_Nil] have "inv_list pf t r" .
    then have "gdata_update_list pf t r [] = Inr r"
      using update_list_fixed [of pf t r "[]"] by simp
    with b show "gdata_update pf t b = Inr b" by simp
  qed
next
  case (JStr s)
  show ?case unfolding idem_at_def
  proof (intro allI impI)
    fix b assume "gdata_update pf t (JStr s) = Inr b"
    then have "gdata_update_str pf t s = Inr b" by simp
    from update_str_result [OF this] show "gdata_update pf t b = Inr b" by auto
  qed
qed (simp_all add: idem_at_def)

lemma update_idem: "gdata_update pf t a = Inr b \<Longrightarrow> gdata_update pf t b = Inr b"
  using update_idem_at [of pf t a] by (rule idem_atD)

section \<open>Claims about the persistence layer\<close>

lemma update_dict_stepI:
  "gdata_update pf t e = Inr e' \<Longrightarrow>
   gdata_update_dict pf t ((k, e) # d) x = gdata_update_dict pf t d (keep_item x k e')"
  by (simp add: update_dict_step)

lemma update_list_stepI:
  "gdata_update pf t e = Inr e' \<Longrightarrow>
   gdata_update_list pf t (e # li) x = gdata_update_list pf t li (keep_elem x e')"
  by (simp add: update_list_step)

lemma update_scalar: "is_scalar v \<Longrightarrow> gdata_update pf t v = Inr v"
  by (cases v) simp_all

lemma scalar_not_null: "is_scalar v \<Longrightarrow> v \<noteq> JNull"
  by (cases v) simp_all

lemma update_str_purge:
  "\<not> bad_expiry pf s \<Longrightarrow> gdata_update_str pf t s = Inr (purge pf t (JStr s))"
  by (auto simp: bad_expiry_def gdata_update_str_def expired_def Let_def split: option.splits)

lemma update_list_purge:
  "\<forall>e \<in> set li. gdata_update pf t e = Inr (purge pf t e) \<Longrightarrow>
   gdata_update_list pf t li x = Inr (x @ filter (\<lambda>e. e \<noteq> JNull) (map (purge pf t) li))"
proof (induction li arbitrary: x)
  case Nil
  show ?case by simp
next
  case (Cons e li)
  from Cons.prems have e: "gdata_update pf t e = Inr (purge pf t e)"
    and tl: "\<forall>e \<in> set li. gdata_update pf t e = Inr (purge pf t e)" by simp_all
  from update_list_stepI [OF e] have
    "gdata_update_list pf t (e # li) x = gdata_update_list pf t li (keep_elem x (purge pf t e))" .
  also have "\<dots> = Inr (keep_elem x (purge pf t e) @ filter (\<lambda>e. e \<noteq> JNull) (map (purge pf t) li))"
    by (rule Cons.IH [OF tl])
  finally show ?case by (simp add: keep_elem_def)
qed

lemma update_dict_purge:
  assumes "\<forall>e \<in> snd ` set d. gdata_update pf t e = Inr (purge pf t e)"
    and "distinct (map fst d)" and "fst ` set x \<inter> fst ` set d = {}"
  shows "gdata_update_dict pf t d x =
     Inr (x @ filter (\<lambda>kv. snd kv \<noteq> JNull) (map (\<lambda>(k, v). (k, purge pf t v)) d))"
  using assms
proof (induction d arbitrary: x)
  case Nil
  show ?case by simp
next
  case (Cons a d)
  obtain k e where a: "a = (k, e)" by (cases a)
  from Cons.prems(1) have e: "gdata_update pf t e = Inr (purge pf t e)"
    and tl: "\<forall>e \<in> snd ` set d. gdata_update pf t e = Inr (purge pf t e)"
    unfolding a by simp_all
  from Cons.prems(2) have dd: "distinct (map fst d)" and kd: "k \<notin> fst ` set d"
    unfolding a by simp_all
  from Cons.prems(3) have kx: "k \<notin> fst ` set x" and xd: "fst ` set x \<inter> fst ` set d = {}"
    unfolding a by auto
  have keep: "keep_item x k (purge pf t e)
      = x @ (if purge pf t e \<noteq> JNull then [(k, purge pf t e)] else [])"
    using kx by (simp add: keep_item_def dict_set_fresh)
  have disj: "fst ` set (keep_item x k (purge pf t e)) \<inter> fst ` set d = {}"
  proof (cases "purge pf t e = JNull")
    case True
    then show ?thesis unfolding keep using xd by simp
  next
    case False
    have "fst ` set (x @ [(k, purge pf t e)]) = insert k (fst ` set x)" by auto
    with False show ?thesis unfolding keep using xd kd by simp
  qed
  from update_dict_stepI [OF e] have
    "gdata_update_dict pf t ((k, e) # d) x
       = gdata_update_dict pf t d (keep_item x k (purge pf t e))" .
  also have "\<dots> = Inr (keep_item x k (purge pf t e)
      @ filter (\<lambda>kv. snd kv \<noteq> JNull) (map (\<lambda>(k, v). (k, purge pf t v)) d))"
    by (rule Cons.IH [OF tl dd disj])
  finally show ?case unfolding a keep by simp
qed

lemma update_purge:
  "\<not> has_bad pf a \<Longrightarrow> keys_distinct a \<Longrightarrow> gdata_update pf t a = Inr (purge pf t a)"
proof (induction a)
  case (JDict d)
  have elems: "\<forall>e \<in> snd ` set d. gdata_update pf t e = Inr (purge pf t e)"
  proof
    fix e assume e: "e \<in> snd ` set d"
    then obtain k where kv: "(k, e) \<in> set d" by force
    from JDict.prems e have "\<not> has_bad pf e" "keys_distinct e" by auto
    with JDict.IH [OF kv] show "gdata_update pf t e = Inr (purge pf t e)" by simp
  qed
  from JDict.prems(2) have dd: "distinct (map fst d)" by simp
  from update_dict_purge [OF elems dd, of "[]"] show ?case by simp
next
  case (JList l)
  have elems: "\<forall>e \<in> set l. gdata_update pf t e = Inr (purge pf t e)"
    using JList by auto
  from update_list_purge [OF elems, of "[]"] show ?case by simp
next
  case (JStr s)
  then show ?case by (simp add: update_str_purge del: purge.simps)
qed simp_all

lemma purge_settled: "settled pf t a \<Longrightarrow> purge pf t a = a"
proof (induction a)
  case (JDict d)
  have m: "map (\<lambda>(k, v). (k, purge pf t v)) d = d"
  proof (rule map_idI)
    fix kv assume kv: "kv \<in> set d"
    obtain k v where p: "kv = (k, v)" by (cases kv)
    from kv p JDict.prems have "settled pf t v" by force
    with JDict.IH [of kv v] kv p show "(case kv of (k, v) \<Rightarrow> (k, purge pf t v)) = kv" by simp
  qed
  have f: "filter (\<lambda>kv. snd kv \<noteq> JNull) d = d"
    using JDict.prems by (auto intro: filter_True)
  show ?case by (simp add: m f)
next
  case (JList l)
  have m: "map (purge pf t) l = l"
    using JList by (auto intro: map_idI)
  have f: "filter (\<lambda>e. e \<noteq> JNull) l = l"
    using JList.prems by (auto intro: filter_True)
  show ?case by (simp add: m f)
qed simp_all

text \<open>
  C1 (as amended).  Take a string \<open>x\<close>, separator, \<open>d\<close> whose payload \<open>x\<close> and suffix
  \<open>d\<close> hold no separator and whose suffix parses to a number \<open>dv\<close> that is not NaN.
  Normalizing at time \<open>t\<close> keeps the entry exactly when \<open>t \<le> dv\<close> and removes it exactly
  when \<open>t > dv\<close>: at top level the string is replaced by \<open>None\<close>, in a dict the key is
  not stored, in a list the element is not appended.  A string without separator is kept
  unchanged, and so is a number or a boolean.  A null is returned as it is at top level,
  and is dropped when it is a member of a dict or of a list.  A dict or a list is
  normalized through every level of nesting: for a document \<open>doc\<close> with no malformed
  expiry string (and, as in every Python dict, no key twice in a dict), the result is
  \<open>purge\<close> of it, where each container holds, in their order, the normalized members
  that are not \<open>None\<close>.  A value \<open>same\<close> that holds, at any depth,
  no expired string and no null member passes through unchanged, whether it is a string,
  a number, a boolean, a dict or a list.
\<close>

theorem expiry_entry_kept_until_deadline:
  assumes x: "usep \<notin> set x" and d: "usep \<notin> set d"
    and dv: "pf d = Some dv" and nan: "dv \<noteq> NaN"
    and s: "usep \<notin> set s" and v: "is_scalar v"
    and doc: "\<not> has_bad pf doc" "keys_distinct doc"
    and same: "\<not> has_bad pf same" "keys_distinct same" "settled pf t same"
  shows "(time_le t dv = (\<not> time_gt t dv))
    \<and> gdata_update pf t (JStr (x @ usep # d)) =
          Inr (if time_le t dv then JStr (x @ usep # d) else JNull)
    \<and> gdata_update_dict pf t ((k, JStr (x @ usep # d)) # rest) acc =
          gdata_update_dict pf t rest
            (if time_le t dv then dict_set acc k (JStr (x @ usep # d)) else acc)
    \<and> gdata_update_list pf t (JStr (x @ usep # d) # li) out =
          gdata_update_list pf t li
            (if time_le t dv then out @ [JStr (x @ usep # d)] else out)
    \<and> gdata_update pf t (JStr s) = Inr (JStr s)
    \<and> gdata_update_dict pf t ((k, JStr s) # rest) acc =
          gdata_update_dict pf t rest (dict_set acc k (JStr s))
    \<and> gdata_update_list pf t (JStr s # li) out = gdata_update_list pf t li (out @ [JStr s])
    \<and> gdata_update pf t v = Inr v
    \<and> gdata_update_dict pf t ((k, v) # rest) acc = gdata_update_dict pf t rest (dict_set acc k v)
    \<and> gdata_update_list pf t (v # li) out = gdata_update_list pf t li (out @ [v])
    \<and> gdata_update pf t JNull = Inr JNull
    \<and> gdata_update_dict pf t ((k, JNull) # rest) acc = gdata_update_dict pf t rest acc
    \<and> gdata_update_list pf t (JNull # li) out = gdata_update_list pf t li out
    \<and> gdata_update pf t doc = Inr (purge pf t doc)
    \<and> gdata_update pf t same = Inr same"
proof -
  let ?e = "JStr (x @ usep # d)"
  have le: "time_le t dv = (\<not> time_gt t dv)" using nan by (rule time_le_gt)
  have e: "gdata_update pf t ?e = Inr (if time_le t dv then ?e else JNull)"
    using update_str_expiry [of x d pf dv t] x d dv le by simp
  have ed: "gdata_update_dict pf t ((k, ?e) # rest) acc =
      gdata_update_dict pf t rest (if time_le t dv then dict_set acc k ?e else acc)"
    using update_dict_stepI [OF e] by (simp add: keep_item_def)
  have el: "gdata_update_list pf t (?e # li) out =
      gdata_update_list pf t li (if time_le t dv then out @ [?e] else out)"
    using update_list_stepI [OF e] by (simp add: keep_elem_def)
  have p: "gdata_update pf t (JStr s) = Inr (JStr s)"
    using update_str_nosep [OF s] by simp
  have pd: "gdata_update_dict pf t ((k, JStr s) # rest) acc =
      gdata_update_dict pf t rest (dict_set acc k (JStr s))"
    using update_dict_stepI [OF p] by (simp add: keep_item_def)
  have pl: "gdata_update_list pf t (JStr s # li) out = gdata_update_list pf t li (out @ [JStr s])"
    using update_list_stepI [OF p] by (simp add: keep_elem_def)
  have c: "gdata_update pf t v = Inr v" using v by (rule update_scalar)
  have cd: "gdata_update_dict pf t ((k, v) # rest) acc = gdata_update_dict pf t rest (dict_set acc k v)"
    using update_dict_stepI [OF c] scalar_not_null [OF v] by (simp add: keep_item_def)
  have cl: "gdata_update_list pf t (v # li) out = gdata_update_list pf t li (out @ [v])"
    using update_list_stepI [OF c] scalar_not_null [OF v] by (simp add: keep_elem_def)
  have n: "gdata_update pf t JNull = Inr JNull" by simp
  have nd: "gdata_update_dict pf t ((k, JNull) # rest) acc = gdata_update_dict pf t rest acc"
    by (simp add: keep_item_def)
  have nl: "gdata_update_list pf t (JNull # li) out = gdata_update_list pf t li out"
    by (simp add: keep_elem_def)
  have rec: "gdata_update pf t doc = Inr (purge pf t doc)"
    using doc by (rule update_purge)
  have "gdata_update pf t same = Inr (purge pf t same)"
    using same(1,2) by (rule update_purge)
  then have un: "gdata_update pf t same = Inr same"
    using purge_settled [OF same(3)] by simp
  from le e ed el p pd pl c cd cl n nd nl rec un show ?thesis by blast
qed

lemma float_digits_100: "float_digits (ustr ''100'') = Some (Fin 100)"
  by (simp add: float_digits_def ustr_def)

lemma float_digits_soon: "float_digits (ustr ''soon'') = None"
  by (simp add: float_digits_def ustr_def)

lemma split_vip_100:
  "py_split usep (ustr ''vip@other'' @ usep # ustr ''100'') = [ustr ''vip@other'', ustr ''100'']"
  by (simp add: ustr_def usep_def)

lemma split_tag: "py_split usep (ustr ''tag@other'') = [ustr ''tag@other'']"
  by (simp add: ustr_def usep_def)

lemma split_vip_200:
  "py_split usep (ustr ''vip@other'' @ usep # ustr ''200'') = [ustr ''vip@other'', ustr ''200'']"
  by (simp add: ustr_def usep_def)

lemma float_digits_200: "float_digits (ustr ''200'') = Some (Fin 200)"
  by (simp add: float_digits_def ustr_def)

text \<open>
  C1 as first stated lets every non-string value pass through unchanged, and decides
  every string \<open>x\<close>, separator, \<open>d\<close> by \<open>t \<le> d\<close>.  A null member does not pass: the
  list \<open>[null, 1]\<close> normalizes to \<open>[1]\<close> and the dict with the one entry \<open>tag: null\<close> to
  the empty dict.  A payload that holds a separator is decided by the piece after the
  first separator: with payload \<open>a\<close>, separator, \<open>5\<close> and suffix \<open>10\<close> the entry is
  removed at time 7.  A suffix \<open>nan\<close> is a float that no time is less than or equal to,
  and the entry is kept.
\<close>

theorem expiry_claim_counterexamples:
  "gdata_update float_digits 50 (JList [JNull, JInt 1]) = Inr (JList [JInt 1])
   \<and> gdata_update float_digits 50 (JDict [(ustr ''tag'', JNull)]) = Inr (JDict [])
   \<and> float_digits (ustr ''10'') = Some (Fin 10) \<and> time_le 7 (Fin 10)
   \<and> gdata_update float_digits 7 (JStr ((ustr ''a'' @ usep # ustr ''5'') @ usep # ustr ''10''))
       = Inr JNull
   \<and> float_words (ustr ''nan'') = Some NaN \<and> \<not> time_le 7 NaN
   \<and> gdata_update float_words 7 (JStr (ustr ''a'' @ usep # ustr ''nan''))
       = Inr (JStr (ustr ''a'' @ usep # ustr ''nan''))"
  by (simp add: keep_elem_def keep_item_def gdata_update_str_def float_words_def float_digits_def
      ustr_def usep_def)

text \<open>
  C2.  The normalizer is idempotent at a fixed time: normalizing the result of a
  normalization returns that result, and a normalization that raises does so both times.
\<close>

theorem normalize_idempotent:
  "(case gdata_update pf t D of Inl err \<Rightarrow> Inl err | Inr D' \<Rightarrow> gdata_update pf t D')
     = gdata_update pf t D"
proof (cases "gdata_update pf t D")
  case (Inl err)
  then show ?thesis by simp
next
  case (Inr D')
  then show ?thesis using update_idem [of pf t D D'] by simp
qed

text \<open>
  C1, at concrete inputs: the entry \<open>vip@other\<close> with deadline 100 is kept at time 100
  and removed at time 101, at top level, from a list and from a dict; at time 101 a
  player document loses that entry from a list inside a list and from a dict inside a
  list, with the null beside it; a document whose only expiring entry has the deadline
  200 is unchanged.
\<close>

theorem expiry_entry_kept_until_deadline_witness:
  "usep \<notin> set (ustr ''vip@other'') \<and> usep \<notin> set (ustr ''100'')
   \<and> float_digits (ustr ''100'') = Some (Fin 100) \<and> Fin 100 \<noteq> NaN
   \<and> usep \<notin> set (ustr ''tag@other'') \<and> is_scalar (JInt 7)
   \<and> gdata_update float_digits 100 (JStr (ustr ''vip@other'' @ usep # ustr ''100''))
         = Inr (JStr (ustr ''vip@other'' @ usep # ustr ''100''))
   \<and> gdata_update float_digits 101 (JStr (ustr ''vip@other'' @ usep # ustr ''100'')) = Inr JNull
   \<and> gdata_update_list float_digits 101 [JStr (ustr ''vip@other'' @ usep # ustr ''100'')] []
         = Inr []
   \<and> gdata_update_dict float_digits 101
         [(ustr ''k'', JStr (ustr ''vip@other'' @ usep # ustr ''100''))] [] = Inr []
   \<and> \<not> has_bad float_digits
         (JDict [(ustr ''items'',
            JList [JStr (ustr ''tag@other''),
                   JList [JStr (ustr ''vip@other'' @ usep # ustr ''100''), JInt 7],
                   JDict [(ustr ''k'', JStr (ustr ''vip@other'' @ usep # ustr ''100'')),
                          (ustr ''n'', JNull)]])])
   \<and> keys_distinct
         (JDict [(ustr ''items'',
            JList [JStr (ustr ''tag@other''),
                   JList [JStr (ustr ''vip@other'' @ usep # ustr ''100''), JInt 7],
                   JDict [(ustr ''k'', JStr (ustr ''vip@other'' @ usep # ustr ''100'')),
                          (ustr ''n'', JNull)]])])
   \<and> gdata_update float_digits 101
         (JDict [(ustr ''items'',
            JList [JStr (ustr ''tag@other''),
                   JList [JStr (ustr ''vip@other'' @ usep # ustr ''100''), JInt 7],
                   JDict [(ustr ''k'', JStr (ustr ''vip@other'' @ usep # ustr ''100'')),
                          (ustr ''n'', JNull)]])])
       = Inr (JDict [(ustr ''items'', JList [JStr (ustr ''tag@other''), JList [JInt 7], JDict []])])
   \<and> settled float_digits 101
         (JDict [(ustr ''items'',
            JList [JList [JStr (ustr ''vip@other'' @ usep # ustr ''200''), JInt 7], JDict []])])
   \<and> gdata_update float_digits 101
         (JDict [(ustr ''items'',
            JList [JList [JStr (ustr ''vip@other'' @ usep # ustr ''200''), JInt 7], JDict []])])
       = Inr (JDict [(ustr ''items'',
            JList [JList [JStr (ustr ''vip@other'' @ usep # ustr ''200''), JInt 7], JDict []])])"
proof -
  let ?doc = "JDict [(ustr ''items'',
            JList [JStr (ustr ''tag@other''),
                   JList [JStr (ustr ''vip@other'' @ usep # ustr ''100''), JInt 7],
                   JDict [(ustr ''k'', JStr (ustr ''vip@other'' @ usep # ustr ''100'')),
                          (ustr ''n'', JNull)]])]"
  let ?same = "JDict [(ustr ''items'',
            JList [JList [JStr (ustr ''vip@other'' @ usep # ustr ''200''), JInt 7], JDict []])]"
  have h1: "usep \<notin> set (ustr ''vip@other'')" by (simp add: ustr_def usep_def)
  have h2: "usep \<notin> set (ustr ''100'')" by (simp add: ustr_def usep_def)
  have h3: "float_digits (ustr ''100'') = Some (Fin 100)" by (rule float_digits_100)
  have h4: "Fin 100 \<noteq> NaN" by simp
  have h5: "usep \<notin> set (ustr ''tag@other'')" by (simp add: ustr_def usep_def)
  have h6: "is_scalar (JInt 7)" by simp
  have h7: "\<not> has_bad float_digits ?doc"
    by (simp add: bad_expiry_def split_vip_100 split_tag float_digits_100)
  have h8: "keys_distinct ?doc" by (simp add: ustr_def)
  have h9: "\<not> has_bad float_digits ?same"
    by (simp add: bad_expiry_def split_vip_200 float_digits_200)
  have h10: "keys_distinct ?same" by simp
  have h11: "settled float_digits 101 ?same" "settled float_digits 100 ?same"
    by (simp_all add: expired_def split_vip_200 float_digits_200)
  have le: "time_le 100 (Fin 100)" "\<not> time_le 101 (Fin 100)" by simp_all
  note th = expiry_entry_kept_until_deadline [where x = "ustr ''vip@other''" and d = "ustr ''100''"
      and pf = float_digits and dv = "Fin 100" and s = "ustr ''tag@other''" and v = "JInt 7"
      and k = "ustr ''k''" and rest = "[]" and acc = "[]" and li = "[]" and out = "[]"
      and doc = ?doc and same = ?same, OF h1 h2 h3 h4 h5 h6 h7 h8 h9 h10]
  note th100 = th [where t = 100, OF h11(2)]
  note th101 = th [where t = 101, OF h11(1)]
  have r1: "gdata_update float_digits 100 (JStr (ustr ''vip@other'' @ usep # ustr ''100''))
         = Inr (JStr (ustr ''vip@other'' @ usep # ustr ''100''))"
    using th100 le
    by (simp del: gdata_update.simps gdata_update_dict.simps gdata_update_list.simps purge.simps)
  have r2: "gdata_update float_digits 101 (JStr (ustr ''vip@other'' @ usep # ustr ''100'')) = Inr JNull"
    using th101 le
    by (simp del: gdata_update.simps gdata_update_dict.simps gdata_update_list.simps purge.simps)
  have "gdata_update_list float_digits 101 [JStr (ustr ''vip@other'' @ usep # ustr ''100'')] []
         = gdata_update_list float_digits 101 [] []"
    using th101 le
    by (simp del: gdata_update.simps gdata_update_dict.simps gdata_update_list.simps purge.simps)
  then have r3: "gdata_update_list float_digits 101 [JStr (ustr ''vip@other'' @ usep # ustr ''100'')] []
         = Inr []"
    by (simp only: gdata_update_list.simps(1))
  have "gdata_update_dict float_digits 101
         [(ustr ''k'', JStr (ustr ''vip@other'' @ usep # ustr ''100''))] []
         = gdata_update_dict float_digits 101 [] []"
    using th101 le
    by (simp del: gdata_update.simps gdata_update_dict.simps gdata_update_list.simps purge.simps)
  then have r4: "gdata_update_dict float_digits 101
         [(ustr ''k'', JStr (ustr ''vip@other'' @ usep # ustr ''100''))] [] = Inr []"
    by (simp only: gdata_update_dict.simps(1))
  have pg: "purge float_digits 101 ?doc
      = JDict [(ustr ''items'', JList [JStr (ustr ''tag@other''), JList [JInt 7], JDict []])]"
    by (simp add: expired_def split_vip_100 split_tag float_digits_100)
  have "gdata_update float_digits 101 ?doc = Inr (purge float_digits 101 ?doc)"
    using th101 by blast
  then have r5: "gdata_update float_digits 101 ?doc
      = Inr (JDict [(ustr ''items'', JList [JStr (ustr ''tag@other''), JList [JInt 7], JDict []])])"
    by (simp only: pg)
  have r6: "gdata_update float_digits 101 ?same = Inr ?same" using th101 by blast
  from h1 h2 h3 h4 h5 h6 r1 r2 r3 r4 h7 h8 r5 h11(1) r6 show ?thesis by blast
qed

text \<open>
  C2, at a concrete player document: the first pass removes the expired entry, the second
  pass changes nothing.
\<close>

theorem normalize_idempotent_witness:
  "gdata_update float_digits 101
     (JDict [(ustr ''items'', JList [JStr (ustr ''vip@other'' @ usep # ustr ''100''), JStr (ustr ''tag@other'')]),
             (ustr ''spoints'', JInt 7)])
   = Inr (JDict [(ustr ''items'', JList [JStr (ustr ''tag@other'')]), (ustr ''spoints'', JInt 7)])
   \<and> gdata_update float_digits 101
     (JDict [(ustr ''items'', JList [JStr (ustr ''tag@other'')]), (ustr ''spoints'', JInt 7)])
   = Inr (JDict [(ustr ''items'', JList [JStr (ustr ''tag@other'')]), (ustr ''spoints'', JInt 7)])"
proof -
  have first: "gdata_update float_digits 101
     (JDict [(ustr ''items'', JList [JStr (ustr ''vip@other'' @ usep # ustr ''100''), JStr (ustr ''tag@other'')]),
             (ustr ''spoints'', JInt 7)])
   = Inr (JDict [(ustr ''items'', JList [JStr (ustr ''tag@other'')]), (ustr ''spoints'', JInt 7)])"
    by (simp add: keep_item_def keep_elem_def gdata_update_str_def float_digits_def ustr_def usep_def)
  from normalize_idempotent [of float_digits 101
     "JDict [(ustr ''items'', JList [JStr (ustr ''vip@other'' @ usep # ustr ''100''), JStr (ustr ''tag@other'')]),
             (ustr ''spoints'', JInt 7)]"] first
  show ?thesis by simp
qed



lemma verr_atD: "verr_at pf t e \<Longrightarrow> gdata_update pf t e = Inl err \<Longrightarrow> err = ValueError"
  unfolding verr_at_def by blast

lemma update_str_error: "gdata_update_str pf t s = Inl err \<Longrightarrow> err = ValueError"
  by (auto simp: gdata_update_str_def Let_def split: if_splits option.splits)

lemma update_list_error:
  assumes "\<forall>e \<in> set li. verr_at pf t e" and "gdata_update_list pf t li x = Inl err"
  shows "err = ValueError"
  using assms
proof (induction li arbitrary: x)
  case Nil
  then show ?case by simp
next
  case (Cons e li)
  from Cons.prems(1) have tl: "\<forall>e \<in> set li. verr_at pf t e" and hd: "verr_at pf t e"
    by simp_all
  show ?case
  proof (cases "gdata_update pf t e")
    case (Inl err')
    with Cons.prems(2) have "err' = err" by (simp add: update_list_step)
    with verr_atD [OF hd Inl] show ?thesis by simp
  next
    case (Inr e')
    with Cons.prems(2) have "gdata_update_list pf t li (keep_elem x e') = Inl err"
      by (simp add: update_list_step)
    from Cons.IH [OF tl this] show ?thesis .
  qed
qed

lemma update_dict_error:
  assumes "\<forall>e \<in> snd ` set d. verr_at pf t e" and "gdata_update_dict pf t d x = Inl err"
  shows "err = ValueError"
  using assms
proof (induction d arbitrary: x)
  case Nil
  then show ?case by simp
next
  case (Cons a d)
  obtain k e where a: "a = (k, e)" by (cases a)
  from Cons.prems(1) have tl: "\<forall>e \<in> snd ` set d. verr_at pf t e" and hd: "verr_at pf t e"
    unfolding a by simp_all
  show ?case
  proof (cases "gdata_update pf t e")
    case (Inl err')
    with Cons.prems(2) have "err' = err" unfolding a by (simp add: update_dict_step)
    with verr_atD [OF hd Inl] show ?thesis by simp
  next
    case (Inr e')
    with Cons.prems(2) have "gdata_update_dict pf t d (keep_item x k e') = Inl err"
      unfolding a by (simp add: update_dict_step)
    from Cons.IH [OF tl this] show ?thesis .
  qed
qed

lemma update_verr_at: "verr_at pf t a"
proof (induction a)
  case (JDict d)
  have elems: "\<forall>e \<in> snd ` set d. verr_at pf t e"
  proof
    fix e assume "e \<in> snd ` set d"
    then obtain k where kv: "(k, e) \<in> set d" by force
    show "verr_at pf t e" using JDict.IH [OF kv] by simp
  qed
  show ?case unfolding verr_at_def
  proof (intro allI impI)
    fix err assume "gdata_update pf t (JDict d) = Inl err"
    then have "gdata_update_dict pf t d [] = Inl err"
      by (cases "gdata_update_dict pf t d []") simp_all
    from update_dict_error [OF elems this] show "err = ValueError" .
  qed
next
  case (JList l)
  have elems: "\<forall>e \<in> set l. verr_at pf t e" using JList.IH by blast
  show ?case unfolding verr_at_def
  proof (intro allI impI)
    fix err assume "gdata_update pf t (JList l) = Inl err"
    then have "gdata_update_list pf t l [] = Inl err"
      by (cases "gdata_update_list pf t l []") simp_all
    from update_list_error [OF elems this] show "err = ValueError" .
  qed
next
  case (JStr s)
  show ?case unfolding verr_at_def using update_str_error [of pf t s] by simp
qed (simp_all add: verr_at_def)

lemma update_list_bad:
  "\<exists>e \<in> set li. gdata_update pf t e = Inl ValueError \<Longrightarrow> gdata_update_list pf t li x = Inl ValueError"
proof (induction li arbitrary: x)
  case Nil
  then show ?case by simp
next
  case (Cons e li)
  show ?case
  proof (cases "gdata_update pf t e")
    case (Inl err)
    with verr_atD [OF update_verr_at Inl] show ?thesis by (simp add: update_list_step)
  next
    case (Inr e')
    with Cons.prems have "\<exists>e \<in> set li. gdata_update pf t e = Inl ValueError" by auto
    from Cons.IH [OF this] Inr show ?thesis by (simp add: update_list_step)
  qed
qed

lemma update_dict_bad:
  "\<exists>e \<in> snd ` set d. gdata_update pf t e = Inl ValueError \<Longrightarrow> gdata_update_dict pf t d x = Inl ValueError"
proof (induction d arbitrary: x)
  case Nil
  then show ?case by simp
next
  case (Cons a d)
  obtain k e where a: "a = (k, e)" by (cases a)
  show ?case
  proof (cases "gdata_update pf t e")
    case (Inl err)
    with verr_atD [OF update_verr_at Inl] show ?thesis unfolding a by (simp add: update_dict_step)
  next
    case (Inr e')
    with Cons.prems have "\<exists>e \<in> snd ` set d. gdata_update pf t e = Inl ValueError"
      unfolding a by auto
    from Cons.IH [OF this] Inr show ?thesis unfolding a by (simp add: update_dict_step)
  qed
qed

lemma update_has_bad: "has_bad pf a \<Longrightarrow> gdata_update pf t a = Inl ValueError"
proof (induction a)
  case (JDict d)
  from JDict.prems obtain k e where kv: "(k, e) \<in> set d" and bad: "has_bad pf e" by force
  from JDict.IH [OF kv _ bad] have "gdata_update pf t e = Inl ValueError" by simp
  with kv have "\<exists>e \<in> snd ` set d. gdata_update pf t e = Inl ValueError" by force
  from update_dict_bad [OF this] show ?case by simp
next
  case (JList l)
  from JList.prems obtain e where e: "e \<in> set l" and bad: "has_bad pf e" by auto
  from JList.IH [OF e bad] e have "\<exists>e \<in> set l. gdata_update pf t e = Inl ValueError" by blast
  from update_list_bad [OF this] show ?case by simp
next
  case (JStr s)
  then show ?case by (simp add: bad_expiry_def gdata_update_str_def Let_def)
qed simp_all




text \<open>
  C9.  A document that holds, at any depth, a string value with at least one separator
  whose piece after the first separator is not parseable as a float makes the normalizer
  raise ValueError; \<open>load\<close> with normalization enabled then raises too, returns no
  document and leaves the file as it was.
\<close>

theorem malformed_expiry_raises_ValueError:
  assumes "has_bad pf a"
  shows "gdata_update pf t a = Inl ValueError
    \<and> (fs gorl = Some a \<longrightarrow> gdata_load pf t fs gorl args True = (Inl ValueError, fs))"
  using update_has_bad [OF assms, of t] by (simp add: gdata_load_def)

text \<open>
  C9, at a concrete player document holding the item \<open>vip@other\<close> with the deadline
  \<open>soon\<close>.
\<close>

theorem malformed_expiry_raises_ValueError_witness:
  "has_bad float_digits (JDict [(ustr ''items'', JList [JStr (ustr ''vip@other'' @ usep # ustr ''soon'')])])
   \<and> gdata_update float_digits 0
        (JDict [(ustr ''items'', JList [JStr (ustr ''vip@other'' @ usep # ustr ''soon'')])])
       = Inl ValueError
   \<and> gdata_load float_digits 0
        [[ustr ''gstats'', ustr ''anon.json''] \<mapsto>
           JDict [(ustr ''items'', JList [JStr (ustr ''vip@other'' @ usep # ustr ''soon'')])]]
        [ustr ''gstats'', ustr ''anon.json''] [] True
       = (Inl ValueError, [[ustr ''gstats'', ustr ''anon.json''] \<mapsto>
           JDict [(ustr ''items'', JList [JStr (ustr ''vip@other'' @ usep # ustr ''soon'')])]])"
proof -
  let ?doc = "JDict [(ustr ''items'', JList [JStr (ustr ''vip@other'' @ usep # ustr ''soon'')])]"
  let ?p = "[ustr ''gstats'', ustr ''anon.json'']"
  have sp: "py_split usep (ustr ''vip@other'' @ usep # ustr ''soon'') = [ustr ''vip@other'', ustr ''soon'']"
    by (simp add: ustr_def usep_def)
  have h: "has_bad float_digits ?doc"
    by (simp add: bad_expiry_def sp float_digits_soon)
  from malformed_expiry_raises_ValueError [OF h, of 0 "[?p \<mapsto> ?doc]" ?p "[]"] h
  show ?thesis by (simp del: gdata_update.simps has_bad.simps)
qed

section \<open>Claims about the chat-command dispatcher\<close>

text \<open>
  C10.  An \<open>equip\<close> command whose category is \<open>other\<close>, \<open>emote\<close> or \<open>powerup\<close> is
  rejected with the warning \<open>unknownItemStatusE\<close>, whether or not the player owns the item:
  the handler returns before the writes, so the items and equipped lists stay as they were.
\<close>

theorem equip_rejects_other_emote_powerup:
  assumes "scat \<in> {ustr ''other'', ustr ''emote'', ustr ''powerup''}"
  shows "equip_command (ustr ''equip'' # scat # item # extra) plr
           = Returned [(''unknownItemStatusE'', ''warning'', [item @ ustr ''@'' @ scat])]
    \<and> server_try (ustr ''equip'') (equip_command (ustr ''equip'' # scat # item # extra) plr)
           = Effect None [(''unknownItemStatusE'', ''warning'', [item @ ustr ''@'' @ scat])]"
proof -
  have "equip_command (ustr ''equip'' # scat # item # extra) plr
           = Returned [(''unknownItemStatusE'', ''warning'', [item @ ustr ''@'' @ scat])]"
    using assms by (simp add: equip_command_def py_index_def Let_def)
  then show ?thesis by (simp add: server_try_def)
qed

lemma msg_equip_other_tag:
  "msg_splits_of (ustr ''/equip other tag'') = Some [ustr ''equip'', ustr ''other'', ustr ''tag'']"
  by (simp add: msg_splits_of_def ustr_def)

text \<open>
  C10, at the message \<open>/equip other tag\<close> of a player who owns \<open>tag@other\<close>.
\<close>

theorem equip_rejects_other_emote_powerup_witness:
  "ustr ''other'' \<in> {ustr ''other'', ustr ''emote'', ustr ''powerup''}
   \<and> msg_splits_of (ustr ''/equip other tag'') = Some [ustr ''equip'', ustr ''other'', ustr ''tag'']
   \<and> equip_command [ustr ''equip'', ustr ''other'', ustr ''tag'']
        \<lparr>spoints = 0, items = [ustr ''tag@other''], equipped = [], allianceidref = None\<rparr>
      = Returned [(''unknownItemStatusE'', ''warning'', [ustr ''tag@other''])]"
proof -
  have h: "ustr ''other'' \<in> {ustr ''other'', ustr ''emote'', ustr ''powerup''}" by simp
  have e: "ustr ''tag'' @ ustr ''@'' @ ustr ''other'' = ustr ''tag@other''" by (simp add: ustr_def)
  from equip_rejects_other_emote_powerup [OF h, of "ustr ''tag''" "[]"
      "\<lparr>spoints = 0, items = [ustr ''tag@other''], equipped = [], allianceidref = None\<rparr>"]
  show ?thesis using h e msg_equip_other_tag by simp
qed

text \<open>
  C7.  When the members of the alliance hold exactly one account ranked owner and that
  account issues \<open>alliance leave\<close>, the handler reports the error
  \<open>allianceOwnerCantLeave\<close> and returns before the writes: the member is not removed,
  the alliance reference of the player is not cleared, and no document is written.
\<close>

theorem sole_owner_cannot_leave:
  assumes "alliance = Some al" and "ownercount (members al) = 1"
    and "map_of (members al) spid = Some (ustr ''owner'')"
  shows "alliance_leave spid plr alliancedatapath alliance nlist
           = Returned [(''allianceOwnerCantLeave'', ''error'', [])]
    \<and> server_try (ustr ''alliance'') (alliance_leave spid plr alliancedatapath alliance nlist)
           = Effect None [(''allianceOwnerCantLeave'', ''error'', [])]"
proof -
  have "alliance_leave spid plr alliancedatapath alliance nlist
           = Returned [(''allianceOwnerCantLeave'', ''error'', [])]"
    using assms by (simp add: alliance_leave_def dict_get_def)
  then show ?thesis by (simp add: server_try_def)
qed

text \<open>
  C7, at an alliance of one owner and one member.
\<close>

theorem sole_owner_cannot_leave_witness:
  "ownercount [(ustr ''pb-1'', ustr ''owner''), (ustr ''pb-2'', ustr ''member'')] = 1
   \<and> map_of [(ustr ''pb-1'', ustr ''owner''), (ustr ''pb-2'', ustr ''member'')] (ustr ''pb-1'')
       = Some (ustr ''owner'')
   \<and> alliance_leave (ustr ''pb-1'')
        \<lparr>spoints = 0, items = [], equipped = [], allianceidref = Some (ustr ''12345'')\<rparr>
        (Some [ustr ''galliances'', ustr ''12345.json''])
        (Some \<lparr>al_name = ustr ''Era'',
               members = [(ustr ''pb-1'', ustr ''owner''), (ustr ''pb-2'', ustr ''member'')]\<rparr>)
        [ustr ''era'']
      = Returned [(''allianceOwnerCantLeave'', ''error'', [])]"
proof -
  let ?al = "\<lparr>al_name = ustr ''Era'',
               members = [(ustr ''pb-1'', ustr ''owner''), (ustr ''pb-2'', ustr ''member'')]\<rparr>"
  have h1: "Some ?al = Some ?al" by simp
  have h2: "ownercount (members ?al) = 1" by (simp add: ustr_def)
  have h3: "map_of (members ?al) (ustr ''pb-1'') = Some (ustr ''owner'')" by (simp add: ustr_def)
  from sole_owner_cannot_leave [OF h1 h2 h3, of
      "\<lparr>spoints = 0, items = [], equipped = [], allianceidref = Some (ustr ''12345'')\<rparr>"
      "Some [ustr ''galliances'', ustr ''12345.json'']" "[ustr ''era'']"] h2 h3
  show ?thesis by simp
qed

subsection \<open>Creating an alliance\<close>

lemma pick_id_finds:
  assumes "\<forall>c \<in> set taken. probe_taken pf t fs
              (gdata_getpath base super_dir (ustr ''galliances/'' @ c))"
    and "fs (gdata_getpath base super_dir (ustr ''galliances/'' @ allianceid)) = None"
  shows "\<exists>fs'. pick_id pf t base super_dir fs (taken @ allianceid # rest)
           = Some (Inr allianceid, fs')"
  using assms
proof (induction taken arbitrary: fs)
  case Nil
  then show ?case by (simp add: gdata_load_def)
next
  case (Cons c taken)
  let ?p = "\<lambda>c. gdata_getpath base super_dir (ustr ''galliances/'' @ c)"
  from Cons.prems(1) have "probe_taken pf t fs (?p c)" by simp
  then obtain doc doc' where doc: "fs (?p c) = Some doc"
    and up: "gdata_update pf t doc = Inr doc'" and tr: "truthy doc'"
    unfolding probe_taken_def by blast
  let ?fs = "gdata_write fs (?p c) doc'"
  have load: "gdata_load pf t fs (?p c) [] True = (Inr doc', ?fs)"
    using doc up by (simp add: gdata_load_def)
  have again: "gdata_update pf t doc' = Inr doc'" using up by (rule update_idem)
  have taken: "\<forall>c' \<in> set taken. probe_taken pf t ?fs (?p c')"
  proof
    fix c' assume c': "c' \<in> set taken"
    with Cons.prems(1) have old: "probe_taken pf t fs (?p c')" by simp
    show "probe_taken pf t ?fs (?p c')"
    proof (cases "?p c' = ?p c")
      case True
      then show ?thesis using again tr by (auto simp: probe_taken_def gdata_write_def)
    next
      case False
      then show ?thesis using old by (simp add: probe_taken_def gdata_write_def)
    qed
  qed
  have free: "?fs (?p allianceid) = None"
    using Cons.prems(2) doc by (auto simp: gdata_write_def)
  from Cons.IH [OF taken free] obtain fs' where
    "pick_id pf t base super_dir ?fs (taken @ allianceid # rest) = Some (Inr allianceid, fs')"
    by blast
  with load tr show ?case by simp
qed

text \<open>
  C3 (as amended).  Take an \<open>alliance create\<close> command with one name, issued by a player
  who is in no alliance and has at least 1000 points; let the name be alphanumeric, of
  length at most 19, and not reserved in lower case; and let the id loop draw, after ids
  that are taken, an id whose file does not exist.  Then the creation succeeds: the name
  is not rejected as too long, the new alliance has the creator as its only member, ranked
  owner, the lower-case name is reserved, the player refers to the new id and 1000 points
  are deducted.
\<close>

theorem alliance_create_succeeds:
  assumes "alliance = None" and "1000 \<le> spoints plr"
    and "isalnum name" and "length name < 20" and "lower name \<notin> set nlist"
    and "\<forall>c \<in> set taken. probe_taken pf t fs
              (gdata_getpath base super_dir (ustr ''galliances/'' @ c))"
    and "fs (gdata_getpath base super_dir (ustr ''galliances/'' @ allianceid)) = None"
  shows "\<exists>fs'. alliance_create isalnum lower pf t base super_dir fs (taken @ allianceid # rest)
           [ustr ''alliance'', ustr ''create'', name] spid plr alliance nlist
         = Some (Completed
                   \<lparr>d_nlist = nlist @ [lower name],
                    d_plrdata = plr\<lparr>allianceidref := Some allianceid,
                                     spoints := spoints plr - 1000\<rparr>,
                    d_alliancedatapath =
                      Some (gdata_getpath base super_dir (ustr ''galliances/'' @ allianceid)),
                    d_alliancedata = Some \<lparr>al_name = name, members = [(spid, ustr ''owner'')]\<rparr>\<rparr>
                   [(''allianceCreateSuccess'', ''success'', [])], fs')"
proof -
  from pick_id_finds [OF assms(6) assms(7), of rest] obtain fs' where
    "pick_id pf t base super_dir fs (taken @ allianceid # rest) = Some (Inr allianceid, fs')"
    by blast
  with assms(1-5) show ?thesis
    by (simp add: alliance_create_def py_index_def)
qed

text \<open>
  C3 as first stated admits names of length at most 20.  The handler tests
  \<open>len(name) >= 20\<close>: an alphanumeric name of exactly 20 characters is rejected with the
  warning \<open>tooLong\<close>, and nothing is created.
\<close>

theorem alliance_create_rejects_twenty_characters:
  "alliance_create ascii_isalnum ascii_lower float_digits 0 [ustr ''bso_server_data''] (ustr ''s1'')
     Map.empty [ustr ''12345'']
     [ustr ''alliance'', ustr ''create'', ustr ''Abcdefghij0123456789''] (ustr ''pb-1'')
     \<lparr>spoints = 1000, items = [], equipped = [], allianceidref = None\<rparr> None []
   = Some (Returned [(''tooLong'', ''warning'', [ustr ''20''])], Map.empty)
   \<and> length (ustr ''Abcdefghij0123456789'') = 20
   \<and> ascii_isalnum (ustr ''Abcdefghij0123456789'')"
  by (simp add: alliance_create_def py_index_def ascii_isalnum_def ustr_def)

lemma getpath_galliances_11111:
  "gdata_getpath [ustr ''bso_server_data''] (ustr ''s1'') (ustr ''galliances/'' @ ustr ''11111'')
     = [ustr ''bso_server_data'', ustr ''galliances'', ustr ''11111.json'']"
  by (simp add: gdata_getpath_def ustr_def)

lemma getpath_galliances_12345:
  "gdata_getpath [ustr ''bso_server_data''] (ustr ''s1'') (ustr ''galliances/'' @ ustr ''12345'')
     = [ustr ''bso_server_data'', ustr ''galliances'', ustr ''12345.json'']"
  by (simp add: gdata_getpath_def ustr_def)

text \<open>
  C3, at concrete inputs: the player creates \<open>Era1\<close>; the first id drawn is taken, the
  second is free.
\<close>

theorem alliance_create_succeeds_witness:
  "(1000::int) \<le> 1500 \<and> ascii_isalnum (ustr ''Era1'') \<and> length (ustr ''Era1'') < 20
   \<and> ascii_lower (ustr ''Era1'') \<notin> set [ustr ''other'']
   \<and> map_option fst
       (alliance_create ascii_isalnum ascii_lower float_digits 0 [ustr ''bso_server_data''] (ustr ''s1'')
         [[ustr ''bso_server_data'', ustr ''galliances'', ustr ''11111.json'']
            \<mapsto> JDict [(ustr ''name'', JStr (ustr ''Other''))]]
         [ustr ''11111'', ustr ''12345'']
         [ustr ''alliance'', ustr ''create'', ustr ''Era1''] (ustr ''pb-1'')
         \<lparr>spoints = 1500, items = [], equipped = [], allianceidref = None\<rparr> None [ustr ''other''])
     = Some (Completed
               \<lparr>d_nlist = [ustr ''other'', ustr ''era1''],
                d_plrdata = \<lparr>spoints = 500, items = [], equipped = [],
                             allianceidref = Some (ustr ''12345'')\<rparr>,
                d_alliancedatapath =
                  Some [ustr ''bso_server_data'', ustr ''galliances'', ustr ''12345.json''],
                d_alliancedata =
                  Some \<lparr>al_name = ustr ''Era1'', members = [(ustr ''pb-1'', ustr ''owner'')]\<rparr>\<rparr>
               [(''allianceCreateSuccess'', ''success'', [])])"
proof -
  let ?fs = "[[ustr ''bso_server_data'', ustr ''galliances'', ustr ''11111.json'']
            \<mapsto> JDict [(ustr ''name'', JStr (ustr ''Other''))]]"
  let ?plr = "\<lparr>spoints = 1500, items = [], equipped = [], allianceidref = None\<rparr>"
  have h1: "(None :: alliancedata option) = None" by simp
  have h2: "1000 \<le> spoints ?plr" by simp
  have h3: "ascii_isalnum (ustr ''Era1'')" by (simp add: ascii_isalnum_def ustr_def)
  have h4: "length (ustr ''Era1'') < 20" by (simp add: ustr_def)
  have lo: "ascii_lower (ustr ''Era1'') = ustr ''era1''" by (simp add: ascii_lower_def ustr_def)
  have h5: "ascii_lower (ustr ''Era1'') \<notin> set [ustr ''other'']" by (simp add: lo) (simp add: ustr_def)
  have nosep: "usep \<notin> set (ustr ''Other'')" by (simp add: ustr_def usep_def)
  have up: "gdata_update float_digits 0 (JDict [(ustr ''name'', JStr (ustr ''Other''))])
      = Inr (JDict [(ustr ''name'', JStr (ustr ''Other''))])"
    by (simp add: update_str_nosep [OF nosep] keep_item_def)
  have h6: "\<forall>c \<in> set [ustr ''11111'']. probe_taken float_digits 0 ?fs
              (gdata_getpath [ustr ''bso_server_data''] (ustr ''s1'') (ustr ''galliances/'' @ c))"
    unfolding probe_taken_def using up by (simp add: getpath_galliances_11111)
  have h7: "?fs (gdata_getpath [ustr ''bso_server_data''] (ustr ''s1'')
                (ustr ''galliances/'' @ ustr ''12345'')) = None"
    by (simp add: getpath_galliances_12345) (simp add: ustr_def)
  from alliance_create_succeeds [where isalnum = ascii_isalnum and lower = ascii_lower
      and name = "ustr ''Era1''" and pf = float_digits and t = 0 and fs = ?fs
      and base = "[ustr ''bso_server_data'']" and super_dir = "ustr ''s1''"
      and taken = "[ustr ''11111'']" and allianceid = "ustr ''12345''" and plr = ?plr
      and nlist = "[ustr ''other'']" and alliance = None and rest = "[]"
      and spid = "ustr ''pb-1''", OF h1 h2 h3 h4 h5 h6 h7]
  obtain fs' where
    "alliance_create ascii_isalnum ascii_lower float_digits 0 [ustr ''bso_server_data''] (ustr ''s1'')
         ?fs ([ustr ''11111''] @ ustr ''12345'' # [])
         [ustr ''alliance'', ustr ''create'', ustr ''Era1''] (ustr ''pb-1'') ?plr None [ustr ''other'']
     = Some (Completed
               \<lparr>d_nlist = [ustr ''other''] @ [ascii_lower (ustr ''Era1'')],
                d_plrdata = ?plr\<lparr>allianceidref := Some (ustr ''12345''),
                                  spoints := spoints ?plr - 1000\<rparr>,
                d_alliancedatapath =
                  Some (gdata_getpath [ustr ''bso_server_data''] (ustr ''s1'')
                          (ustr ''galliances/'' @ ustr ''12345'')),
                d_alliancedata =
                  Some \<lparr>al_name = ustr ''Era1'', members = [(ustr ''pb-1'', ustr ''owner'')]\<rparr>\<rparr>
               [(''allianceCreateSuccess'', ''success'', [])], fs')"
    by blast
  then have r: "map_option fst
       (alliance_create ascii_isalnum ascii_lower float_digits 0 [ustr ''bso_server_data''] (ustr ''s1'')
         ?fs [ustr ''11111'', ustr ''12345'']
         [ustr ''alliance'', ustr ''create'', ustr ''Era1''] (ustr ''pb-1'') ?plr None [ustr ''other''])
     = Some (Completed
               \<lparr>d_nlist = [ustr ''other'', ustr ''era1''],
                d_plrdata = \<lparr>spoints = 500, items = [], equipped = [],
                             allianceidref = Some (ustr ''12345'')\<rparr>,
                d_alliancedatapath =
                  Some [ustr ''bso_server_data'', ustr ''galliances'', ustr ''12345.json''],
                d_alliancedata =
                  Some \<lparr>al_name = ustr ''Era1'', members = [(ustr ''pb-1'', ustr ''owner'')]\<rparr>\<rparr>
               [(''allianceCreateSuccess'', ''success'', [])])"
    by (simp add: lo getpath_galliances_12345)
  from h3 h4 h5 r show ?thesis by simp
qed

subsection \<open>Equipping an item\<close>




















section \<open>Claims about the leaderboard and the leagues\<close>

lemma sorted_desc_sorted:
  "sorted_wrt (\<lambda>a b. snd a \<ge> snd b) (sorted_desc (d :: ('k \<times> 'v::{linordered_ab_group_add}) list))"
proof -
  have "sorted (map (\<lambda>x. - snd x) (sort_key (\<lambda>x. - snd x) d))" by (rule sorted_sort_key)
  then show ?thesis by (simp add: sorted_desc_def sorted_map)
qed

text \<open>
  C5 (as amended).  After every points update to the top-players document, its entries
  other than the \<open>end\<close> key are sorted descending by value: each value is greater than
  or equal to the values after it.
\<close>

theorem tops_sorted_descending:
  "sorted_wrt (\<lambda>a b. snd a \<ge> snd b)
     (filter (\<lambda>x. fst x \<noteq> ustr ''end'') (fst (tops_update t pid earned loaded)))"
proof -
  have "\<exists>d. fst (tops_update t pid earned loaded) = sorted_desc d"
    unfolding tops_update_def Let_def case_prod_beta fst_conv by (rule exI) (rule refl)
  then obtain d where "fst (tops_update t pid earned loaded) = sorted_desc d" ..
  then show ?thesis using sorted_desc_sorted [of d] by (simp add: sorted_wrt_filter)
qed

text \<open>
  C5 as first stated asks for a strictly descending order.  Two accounts with the same
  points are neighbours with equal values: after \<open>pb-2\<close> earns 12 points in a window
  where \<open>pb-1\<close> has 12, the entries are not strictly descending.
\<close>

theorem tops_tie_not_strictly_descending:
  "fst (tops_update 100 (ustr ''pb-2'') 12 (Some [(ustr ''end'', 1000), (ustr ''pb-1'', 12)]))
     = [(ustr ''end'', 1000), (ustr ''pb-1'', 12), (ustr ''pb-2'', 12)]
   \<and> \<not> sorted_wrt (\<lambda>a b. snd a > snd b)
        (filter (\<lambda>x. fst x \<noteq> ustr ''end'')
           [(ustr ''end'', 1000 :: rat), (ustr ''pb-1'', 12), (ustr ''pb-2'', 12)])"
  by (simp add: tops_update_def Let_def dict_setdefault_def dict_value_def sorted_desc_def ustr_def)

text \<open>
  C5, at a concrete update: \<open>pb-2\<close> earns 12 points and passes \<open>pb-1\<close>, who has 5.
\<close>

theorem tops_sorted_descending_witness:
  "fst (tops_update 100 (ustr ''pb-2'') 12 (Some [(ustr ''end'', 1000), (ustr ''pb-1'', 5)]))
     = [(ustr ''end'', 1000), (ustr ''pb-2'', 12), (ustr ''pb-1'', 5)]
   \<and> sorted_wrt (\<lambda>a b. snd a \<ge> snd b)
        (filter (\<lambda>x. fst x \<noteq> ustr ''end'')
           (fst (tops_update 100 (ustr ''pb-2'') 12 (Some [(ustr ''end'', 1000), (ustr ''pb-1'', 5)]))))"
proof -
  have "fst (tops_update 100 (ustr ''pb-2'') 12 (Some [(ustr ''end'', 1000), (ustr ''pb-1'', 5)]))
     = [(ustr ''end'', 1000), (ustr ''pb-2'', 12), (ustr ''pb-1'', 5)]"
    by (simp add: tops_update_def Let_def dict_setdefault_def dict_value_def sorted_desc_def ustr_def)
  with tops_sorted_descending [of 100 "ustr ''pb-2''" 12 "Some [(ustr ''end'', 1000), (ustr ''pb-1'', 5)]"]
  show ?thesis by simp
qed

subsection \<open>The close of the league window\<close>

lemma place_bound: "l < 6 \<Longrightarrow> place l lpi tlp < 6"
  by (auto simp: place_def)

lemma assign_tier_ok:
  assumes "k < length n"
  shows "\<exists>n'. assign_tier n k p = Inr n' \<and> length n' = length n
     \<and> (\<forall>j < length n. tier_keys n' j = (if j = k then insert p (tier_keys n j) else tier_keys n j))
     \<and> (tiers_wf n \<longrightarrow> tiers_wf n') \<and> (tiers_zero n \<longrightarrow> tiers_zero n')"
proof -
  let ?n' = "n[k := dict_set (n ! k) p 0]"
  have a: "assign_tier n k p = Inr ?n'" using assms by (simp add: assign_tier_def)
  have keys: "\<forall>j < length n. tier_keys ?n' j = (if j = k then insert p (tier_keys n j) else tier_keys n j)"
    using assms by (auto simp: tier_keys_def dict_set_keys nth_list_update)
  have wf: "tiers_wf n \<longrightarrow> tiers_wf ?n'"
    unfolding tiers_wf_def using assms by (auto simp: nth_list_update dict_set_distinct)
  have z: "tiers_zero n \<longrightarrow> tiers_zero ?n'"
  proof
    assume zn: "tiers_zero n"
    show "tiers_zero ?n'" unfolding tiers_zero_def
    proof (intro allI impI ballI)
      fix a kv assume a: "a < length ?n'" and kv: "kv \<in> set (?n' ! a)"
      show "snd kv = 0"
      proof (cases "a = k")
        case True
        with kv assms have "kv \<in> set (dict_set (n ! k) p 0)" by simp
        with dict_set_subset [of "n ! k" p 0] have "kv = (p, 0) \<or> kv \<in> set (n ! k)" by blast
        with zn assms show ?thesis by (auto simp: tiers_zero_def)
      next
        case False
        with kv a have "kv \<in> set (n ! a)" by simp
        with zn a show ?thesis by (auto simp: tiers_zero_def)
      qed
    qed
  qed
  from a keys wf z show ?thesis by simp
qed

lemma move_players_ok:
  assumes "\<forall>j < length ps. place l (lpi + j) tlp < length n"
  shows "\<exists>n'. move_players l tlp lpi ps n = Inr n' \<and> length n' = length n
     \<and> (\<forall>k < length n. tier_keys n' k =
           tier_keys n k \<union> {p. \<exists>j < length ps. p = ps ! j \<and> place l (lpi + j) tlp = k})
     \<and> (tiers_wf n \<longrightarrow> tiers_wf n') \<and> (tiers_zero n \<longrightarrow> tiers_zero n')"
  using assms
proof (induction ps arbitrary: lpi n)
  case Nil
  show ?case by simp
next
  case (Cons p ps)
  from Cons.prems have k: "place l lpi tlp < length n" by force
  from assign_tier_ok [OF k, of p] obtain n1 where
    a: "assign_tier n (place l lpi tlp) p = Inr n1" and len1: "length n1 = length n"
    and keys1: "\<forall>j < length n. tier_keys n1 j =
        (if j = place l lpi tlp then insert p (tier_keys n j) else tier_keys n j)"
    and wf1: "tiers_wf n \<longrightarrow> tiers_wf n1" and z1: "tiers_zero n \<longrightarrow> tiers_zero n1"
    by blast
  have rest: "\<forall>j < length ps. place l (Suc lpi + j) tlp < length n1"
  proof (intro allI impI)
    fix j assume "j < length ps"
    then have "Suc j < length (p # ps)" by simp
    with Cons.prems have "place l (lpi + Suc j) tlp < length n" by blast
    then show "place l (Suc lpi + j) tlp < length n1" using len1 by simp
  qed
  from Cons.IH [OF rest] obtain n2 where
    m: "move_players l tlp (Suc lpi) ps n1 = Inr n2" and len2: "length n2 = length n1"
    and keys2: "\<forall>k < length n1. tier_keys n2 k =
        tier_keys n1 k \<union> {q. \<exists>j < length ps. q = ps ! j \<and> place l (Suc lpi + j) tlp = k}"
    and wf2: "tiers_wf n1 \<longrightarrow> tiers_wf n2" and z2: "tiers_zero n1 \<longrightarrow> tiers_zero n2"
    by blast
  have res: "move_players l tlp lpi (p # ps) n = Inr n2" using a m by simp
  have keys: "\<forall>k < length n. tier_keys n2 k =
      tier_keys n k \<union> {q. \<exists>j < length (p # ps). q = (p # ps) ! j \<and> place l (lpi + j) tlp = k}"
  proof (intro allI impI)
    fix k assume kl: "k < length n"
    have split: "{q. \<exists>j < length (p # ps). q = (p # ps) ! j \<and> place l (lpi + j) tlp = k}
        = (if place l lpi tlp = k then {p} else {})
          \<union> {q. \<exists>j < length ps. q = ps ! j \<and> place l (Suc lpi + j) tlp = k}"
      (is "?A = ?B")
    proof (rule set_eqI)
      fix q
      show "q \<in> ?A \<longleftrightarrow> q \<in> ?B"
      proof
        assume "q \<in> ?A"
        then obtain j where j: "j < length (p # ps)" "q = (p # ps) ! j" "place l (lpi + j) tlp = k"
          by blast
        show "q \<in> ?B"
        proof (cases j)
          case 0
          with j show ?thesis by simp
        next
          case (Suc j')
          with j have "j' < length ps" "q = ps ! j'" "place l (Suc lpi + j') tlp = k" by simp_all
          then show ?thesis by blast
        qed
      next
        assume "q \<in> ?B"
        then consider (hd) "place l lpi tlp = k" "q = p"
          | (tl) j' where "j' < length ps" "q = ps ! j'" "place l (Suc lpi + j') tlp = k"
          by (auto split: if_splits)
        then show "q \<in> ?A"
        proof cases
          case hd
          then have "0 < length (p # ps) \<and> q = (p # ps) ! 0 \<and> place l (lpi + 0) tlp = k" by simp
          then show ?thesis by blast
        next
          case tl
          then have "Suc j' < length (p # ps) \<and> q = (p # ps) ! Suc j'
              \<and> place l (lpi + Suc j') tlp = k" by simp
          then show ?thesis by blast
        qed
      qed
    qed
    from keys2 kl len1 have "tier_keys n2 k =
        tier_keys n1 k \<union> {q. \<exists>j < length ps. q = ps ! j \<and> place l (Suc lpi + j) tlp = k}"
      by simp
    moreover from keys1 kl have "tier_keys n1 k =
        (if k = place l lpi tlp then insert p (tier_keys n k) else tier_keys n k)" by simp
    ultimately show "tier_keys n2 k = tier_keys n k \<union> ?A"
      unfolding split by auto
  qed
  from res len1 len2 keys wf1 wf2 z1 z2 show ?case by auto
qed

lemma sent_to_Cons:
  "sent_to (lg # rest) l k =
     {p. \<exists>j < length (map fst lg). p = map fst lg ! j \<and> place l (1 + j) (length lg) = k}
     \<union> sent_to rest (Suc l) k"
  (is "?A = ?B \<union> ?C")
proof (rule set_eqI)
  fix p
  show "p \<in> ?A \<longleftrightarrow> p \<in> ?B \<union> ?C"
  proof
    assume "p \<in> ?A"
    then obtain a i where ai: "a < length (lg # rest)" "i < length ((lg # rest) ! a)"
      "p = fst ((lg # rest) ! a ! i)" "place (l + a) (Suc i) (length ((lg # rest) ! a)) = k"
      unfolding sent_to_def by blast
    show "p \<in> ?B \<union> ?C"
    proof (cases a)
      case 0
      with ai have "i < length (map fst lg) \<and> p = map fst lg ! i \<and> place l (1 + i) (length lg) = k"
        by simp
      then show ?thesis by blast
    next
      case (Suc a')
      with ai have "a' < length rest \<and> i < length (rest ! a') \<and> p = fst (rest ! a' ! i)
          \<and> place (Suc l + a') (Suc i) (length (rest ! a')) = k" by simp
      then have "p \<in> ?C" unfolding sent_to_def by blast
      then show ?thesis by simp
    qed
  next
    assume "p \<in> ?B \<union> ?C"
    then consider (hd) "p \<in> ?B" | (tl) "p \<in> ?C" by blast
    then show "p \<in> ?A"
    proof cases
      case hd
      then obtain j where "j < length lg" "p = fst (lg ! j)" "place l (1 + j) (length lg) = k"
        by auto
      then have "0 < length (lg # rest) \<and> j < length ((lg # rest) ! 0)
          \<and> p = fst ((lg # rest) ! 0 ! j) \<and> place (l + 0) (Suc j) (length ((lg # rest) ! 0)) = k"
        by simp
      then show ?thesis unfolding sent_to_def by blast
    next
      case tl
      then obtain a i where "a < length rest" "i < length (rest ! a)" "p = fst (rest ! a ! i)"
        "place (Suc l + a) (Suc i) (length (rest ! a)) = k"
        unfolding sent_to_def by blast
      then have "Suc a < length (lg # rest) \<and> i < length ((lg # rest) ! Suc a)
          \<and> p = fst ((lg # rest) ! Suc a ! i)
          \<and> place (l + Suc a) (Suc i) (length ((lg # rest) ! Suc a)) = k"
        by simp
      then show ?thesis unfolding sent_to_def by blast
    qed
  qed
qed

lemma sent_to_Nil: "sent_to [] l k = {}"
  by (simp add: sent_to_def)

lemma move_tiers_ok:
  assumes "l + length lgs \<le> 6" and "length n = 6"
  shows "\<exists>n'. move_tiers l lgs n = Inr n' \<and> length n' = 6
     \<and> (\<forall>k < 6. tier_keys n' k = tier_keys n k \<union> sent_to lgs l k)
     \<and> (tiers_wf n \<longrightarrow> tiers_wf n') \<and> (tiers_zero n \<longrightarrow> tiers_zero n')"
  using assms
proof (induction lgs arbitrary: l n)
  case Nil
  then show ?case by (simp add: sent_to_Nil)
next
  case (Cons lg rest)
  from Cons.prems have l: "l < 6" by simp
  have pre: "\<forall>j < length (map fst lg). place l (1 + j) (length lg) < length n"
    using place_bound [OF l] Cons.prems(2) by simp
  from move_players_ok [OF pre] obtain n1 where
    m: "move_players l (length lg) 1 (map fst lg) n = Inr n1" and len1: "length n1 = length n"
    and keys1: "\<forall>k < length n. tier_keys n1 k = tier_keys n k
        \<union> {p. \<exists>j < length (map fst lg). p = map fst lg ! j \<and> place l (1 + j) (length lg) = k}"
    and wf1: "tiers_wf n \<longrightarrow> tiers_wf n1" and z1: "tiers_zero n \<longrightarrow> tiers_zero n1"
    by blast
  have l2: "Suc l + length rest \<le> 6" using Cons.prems(1) by simp
  have len1': "length n1 = 6" using len1 Cons.prems(2) by simp
  from Cons.IH [OF l2 len1'] obtain n2 where
    t: "move_tiers (Suc l) rest n1 = Inr n2" and len2: "length n2 = 6"
    and keys2: "\<forall>k < 6. tier_keys n2 k = tier_keys n1 k \<union> sent_to rest (Suc l) k"
    and wf2: "tiers_wf n1 \<longrightarrow> tiers_wf n2" and z2: "tiers_zero n1 \<longrightarrow> tiers_zero n2"
    by blast
  have res: "move_tiers l (lg # rest) n = Inr n2" using m t by simp
  have keys: "\<forall>k < 6. tier_keys n2 k = tier_keys n k \<union> sent_to (lg # rest) l k"
  proof (intro allI impI)
    fix k :: nat assume k: "k < 6"
    from keys2 k have "tier_keys n2 k = tier_keys n1 k \<union> sent_to rest (Suc l) k" by simp
    moreover from keys1 k Cons.prems(2) have "tier_keys n1 k = tier_keys n k
        \<union> {p. \<exists>j < length (map fst lg). p = map fst lg ! j \<and> place l (1 + j) (length lg) = k}"
      by simp
    ultimately show "tier_keys n2 k = tier_keys n k \<union> sent_to (lg # rest) l k"
      unfolding sent_to_Cons by blast
  qed
  from res len2 keys wf1 wf2 z1 z2 show ?case by blast
qed

lemma sent_to_disjoint:
  assumes wf: "tiers_wf old" and dj: "tiers_disjoint old" and ab: "a \<noteq> b"
  shows "sent_to old 0 a \<inter> sent_to old 0 b = {}"
proof (rule ccontr)
  assume "sent_to old 0 a \<inter> sent_to old 0 b \<noteq> {}"
  then obtain p where pa: "p \<in> sent_to old 0 a" and pb: "p \<in> sent_to old 0 b" by blast
  from pa obtain l1 i1 where 1: "l1 < length old" "i1 < length (old ! l1)"
    "p = fst (old ! l1 ! i1)" "place l1 (Suc i1) (length (old ! l1)) = a"
    unfolding sent_to_def by auto
  from pb obtain l2 i2 where 2: "l2 < length old" "i2 < length (old ! l2)"
    "p = fst (old ! l2 ! i2)" "place l2 (Suc i2) (length (old ! l2)) = b"
    unfolding sent_to_def by auto
  have in1: "p \<in> tier_keys old l1" using 1 by (auto simp: tier_keys_def)
  have in2: "p \<in> tier_keys old l2" using 2 by (auto simp: tier_keys_def)
  have ll: "l1 = l2"
  proof (rule ccontr)
    assume "l1 \<noteq> l2"
    with dj 1(1) 2(1) have "tier_keys old l1 \<inter> tier_keys old l2 = {}"
      unfolding tiers_disjoint_def by blast
    with in1 in2 show False by blast
  qed
  from wf 1(1) have d: "distinct (map fst (old ! l1))" unfolding tiers_wf_def by blast
  have e: "map fst (old ! l1) ! i1 = map fst (old ! l1) ! i2" using 1 2 ll by simp
  have b1: "i1 < length (map fst (old ! l1))" and b2: "i2 < length (map fst (old ! l1))"
    using 1(2) 2(2) ll by simp_all
  from nth_eq_iff_index_eq [OF d b1 b2] e have "i1 = i2" by blast
  with 1(4) 2(4) ll ab show False by simp
qed

lemma tier_keys_replicate: "k < 6 \<Longrightarrow> tier_keys (replicate 6 []) k = {}"
  by (simp add: tier_keys_def)

lemma leagues_rollover_ok:
  assumes len: "length (leagues doc) \<le> 6"
    and wf: "tiers_wf (leagues doc)" and dj: "tiers_disjoint (leagues doc)"
  shows "\<exists>nd. leagues_rollover t doc = Inr nd \<and> length (leagues nd) = 6 \<and> leagues nd ! 5 = []
     \<and> (\<forall>k < 5. tier_keys (leagues nd) k = sent_to (leagues doc) 0 k)
     \<and> tiers_zero (leagues nd) \<and> tiers_wf (leagues nd) \<and> tiers_disjoint (leagues nd)"
proof -
  have l0: "0 + length (leagues doc) \<le> 6" using len by simp
  have r6: "length (replicate 6 ([] :: (pystr \<times> int) list)) = 6" by simp
  have wf0: "tiers_wf (replicate 6 [])" by (simp add: tiers_wf_def)
  have z0: "tiers_zero (replicate 6 [])" by (simp add: tiers_zero_def)
  from move_tiers_ok [OF l0 r6] wf0 z0 obtain n where
    m: "move_tiers 0 (leagues doc) (replicate 6 []) = Inr n" and ln: "length n = 6"
    and keys: "\<forall>k < 6. tier_keys n k = tier_keys (replicate 6 []) k \<union> sent_to (leagues doc) 0 k"
    and wfn: "tiers_wf n" and zn: "tiers_zero n"
    by blast
  let ?nd = "\<lparr>l_end = t + 604800, leagues = n[5 := []]\<rparr>"
  have res: "leagues_rollover t doc = Inr ?nd" using m by (simp add: leagues_rollover_def)
  have k5: "\<forall>k < 5. tier_keys (leagues ?nd) k = sent_to (leagues doc) 0 k"
  proof (intro allI impI)
    fix k :: nat assume k: "k < 5"
    then have "tier_keys (n[5 := []]) k = tier_keys n k" by (simp add: tier_keys_def)
    with keys k show "tier_keys (leagues ?nd) k = sent_to (leagues doc) 0 k"
      by (simp add: tier_keys_replicate)
  qed
  have e5: "tier_keys (leagues ?nd) 5 = {}" using ln by (simp add: tier_keys_def)
  have z: "tiers_zero (leagues ?nd)"
    using zn ln unfolding tiers_zero_def by (auto simp: nth_list_update)
  have w: "tiers_wf (leagues ?nd)"
    using wfn ln unfolding tiers_wf_def by (auto simp: nth_list_update)
  have d: "tiers_disjoint (leagues ?nd)" unfolding tiers_disjoint_def
  proof (intro allI impI)
    fix a b assume a: "a < length (leagues ?nd)" and b: "b < length (leagues ?nd)" and ab: "a \<noteq> b"
    show "tier_keys (leagues ?nd) a \<inter> tier_keys (leagues ?nd) b = {}"
    proof (cases "a = 5 \<or> b = 5")
      case True
      with e5 show ?thesis by auto
    next
      case False
      with a b ln have "a < 5" "b < 5" by simp_all
      with k5 have "tier_keys (leagues ?nd) a = sent_to (leagues doc) 0 a"
        "tier_keys (leagues ?nd) b = sent_to (leagues doc) 0 b" by blast+
      with sent_to_disjoint [OF wf dj ab] show ?thesis by simp
    qed
  qed
  from res ln k5 z w d show ?thesis by (intro exI [of _ ?nd]) simp
qed

lemma find_league_Some:
  "find_league pid ls lei = Some i \<Longrightarrow>
   lei \<le> i \<and> i - lei < length ls \<and> pid \<in> tier_keys ls (i - lei)"
proof (induction ls arbitrary: lei)
  case Nil
  then show ?case by simp
next
  case (Cons lg rest)
  show ?case
  proof (cases "pid \<in> set (map fst lg)")
    case True
    with Cons.prems show ?thesis by (simp add: tier_keys_def)
  next
    case False
    with Cons.prems have "find_league pid rest (Suc lei) = Some i" by simp
    from Cons.IH [OF this] have "Suc lei \<le> i" "i - Suc lei < length rest"
      "pid \<in> tier_keys rest (i - Suc lei)" by simp_all
    moreover from this(1) have "i - lei = Suc (i - Suc lei)" by simp
    ultimately show ?thesis by (simp add: tier_keys_def)
  qed
qed

lemma find_league_None:
  "find_league pid ls lei = None \<Longrightarrow> j < length ls \<Longrightarrow> pid \<notin> tier_keys ls j"
proof (induction ls arbitrary: lei j)
  case Nil
  then show ?case by simp
next
  case (Cons lg rest)
  from Cons.prems(1) have hd: "pid \<notin> set (map fst lg)"
    and tl: "find_league pid rest (Suc lei) = None" by (auto split: if_splits)
  show ?case
  proof (cases j)
    case 0
    with hd show ?thesis by (simp add: tier_keys_def)
  next
    case (Suc j')
    with Cons.prems(2) have "j' < length rest" by simp
    from Cons.IH [OF tl this] Suc show ?thesis by (simp add: tier_keys_def)
  qed
qed

lemma dict_setdefault_keys: "fst ` set (dict_setdefault d k v) = insert k (fst ` set d)"
  by (auto simp: dict_setdefault_def)

lemma set_sorted_desc: "set (sorted_desc d) = set d"
  by (simp add: sorted_desc_def)

lemma leagues_award_ok:
  assumes len: "length (leagues nd) = 6" and dj: "tiers_disjoint (leagues nd)"
  shows "\<exists>fd. leagues_award pid earned nd = Inr fd \<and> length (leagues fd) = 6
     \<and> tiers_disjoint (leagues fd)
     \<and> tier_keys (leagues fd) 5 \<subseteq> insert pid (tier_keys (leagues nd) 5)"
proof -
  define le where "le = (case find_league pid (leagues nd) 0 of None \<Rightarrow> 5 | Some lei \<Rightarrow> lei)"
  have le6: "le < 6"
  proof (cases "find_league pid (leagues nd) 0")
    case None
    then show ?thesis by (simp add: le_def)
  next
    case (Some i)
    from find_league_Some [OF Some] len show ?thesis by (simp add: le_def Some)
  qed
  have others: "\<forall>b < 6. b \<noteq> le \<longrightarrow> pid \<notin> tier_keys (leagues nd) b"
  proof (intro allI impI)
    fix b :: nat assume b: "b < 6" and ne: "b \<noteq> le"
    show "pid \<notin> tier_keys (leagues nd) b"
    proof (cases "find_league pid (leagues nd) 0")
      case None
      from find_league_None [OF None] b len show ?thesis by simp
    next
      case (Some i)
      from find_league_Some [OF Some] have "pid \<in> tier_keys (leagues nd) i" "i < 6"
        using len by simp_all
      moreover have "i = le" by (simp add: le_def Some)
      ultimately show ?thesis using dj b ne len unfolding tiers_disjoint_def by auto
    qed
  qed
  define league where "league = dict_setdefault (leagues nd ! le) pid 0"
  define league' where "league' = dict_set league pid (dict_value league pid 0 + earned)"
  let ?fd = "nd\<lparr>leagues := (leagues nd)[le := sorted_desc league']\<rparr>"
  have res: "leagues_award pid earned nd = Inr ?fd"
    using le6 len by (simp add: leagues_award_def Let_def le_def league_def league'_def)
  have kle: "tier_keys (leagues ?fd) le = insert pid (tier_keys (leagues nd) le)"
    using le6 len
    by (simp add: tier_keys_def set_sorted_desc league'_def league_def dict_set_keys
        dict_setdefault_keys)
  have koth: "\<forall>b < 6. b \<noteq> le \<longrightarrow> tier_keys (leagues ?fd) b = tier_keys (leagues nd) b"
    by (simp add: tier_keys_def)
  have d: "tiers_disjoint (leagues ?fd)" unfolding tiers_disjoint_def
  proof (intro allI impI)
    fix a b assume a: "a < length (leagues ?fd)" and b: "b < length (leagues ?fd)" and ab: "a \<noteq> b"
    then have a6: "a < 6" and b6: "b < 6" using len by simp_all
    from dj a6 b6 ab len have old: "tier_keys (leagues nd) a \<inter> tier_keys (leagues nd) b = {}"
      unfolding tiers_disjoint_def by simp
    show "tier_keys (leagues ?fd) a \<inter> tier_keys (leagues ?fd) b = {}"
    proof (cases "a = le")
      case True
      with ab have "b \<noteq> le" by simp
      with koth b6 others have "tier_keys (leagues ?fd) b = tier_keys (leagues nd) b"
        "pid \<notin> tier_keys (leagues nd) b" by blast+
      with kle True old show ?thesis by auto
    next
      case False
      with koth a6 others have ka: "tier_keys (leagues ?fd) a = tier_keys (leagues nd) a"
        "pid \<notin> tier_keys (leagues nd) a" by blast+
      show ?thesis
      proof (cases "b = le")
        case True
        with kle ka old show ?thesis by auto
      next
        case False
        with koth b6 have "tier_keys (leagues ?fd) b = tier_keys (leagues nd) b" by blast
        with ka old show ?thesis by simp
      qed
    qed
  qed
  have t5: "tier_keys (leagues ?fd) 5 \<subseteq> insert pid (tier_keys (leagues nd) 5)"
  proof (cases "le = 5")
    case True
    with kle show ?thesis by auto
  next
    case False
    with koth have "tier_keys (leagues ?fd) 5 = tier_keys (leagues nd) 5" by simp
    then show ?thesis by auto
  qed
  from res len d t5 show ?thesis by (intro exI [of _ ?fd]) simp
qed

text \<open>
  C4 (as amended).  Take a leagues document of at most six tiers, no account twice in a
  tier and none in two tiers, whose \<open>end\<close> is in the past.  The next update writes the
  document of the new window and then the document with the points of the account added.
  The first has exactly six tiers, every score 0 and tier 5 empty.  A player at position
  \<open>i\<close>, counted from 1, of an old tier \<open>l\<close> of \<open>n\<close> players is in tier \<open>l - 1\<close> when
  \<open>l\<close> is not 0 and \<open>2 i < n\<close>, else in tier \<open>l + 1\<close> when \<open>l\<close> is not 5 and \<open>2 i > n\<close>,
  else in tier \<open>l\<close>; the players so placed in tier 5 are in no tier.  No account is in
  two tiers.  The second document has six tiers too, no account in two of them, and its
  tier 5 holds at most the account that earned the points.
\<close>

theorem leagues_window_close:
  assumes len: "length (leagues doc) \<le> 6" and past: "l_end doc < t"
    and wf: "tiers_wf (leagues doc)" and dj: "tiers_disjoint (leagues doc)"
  shows "\<exists>nd fd. update_leagues t pid earned (Some doc) = ([nd, fd], Inr fd)
     \<and> length (leagues nd) = 6 \<and> leagues nd ! 5 = []
     \<and> (\<forall>k < 5. \<forall>p. p \<in> tier_keys (leagues nd) k \<longleftrightarrow>
           (\<exists>l i. l < length (leagues doc) \<and> i < length (leagues doc ! l)
                 \<and> p = fst (leagues doc ! l ! i)
                 \<and> place l (Suc i) (length (leagues doc ! l)) = k))
     \<and> tiers_zero (leagues nd) \<and> tiers_disjoint (leagues nd)
     \<and> length (leagues fd) = 6 \<and> tiers_disjoint (leagues fd)
     \<and> tier_keys (leagues fd) 5 \<subseteq> {pid}"
proof -
  from leagues_rollover_ok [OF len wf dj, of t] obtain nd where
    r: "leagues_rollover t doc = Inr nd" and l6: "length (leagues nd) = 6"
    and e5: "leagues nd ! 5 = []"
    and k5: "\<forall>k < 5. tier_keys (leagues nd) k = sent_to (leagues doc) 0 k"
    and z: "tiers_zero (leagues nd)" and d: "tiers_disjoint (leagues nd)"
    by blast
  from leagues_award_ok [OF l6 d, of pid earned] obtain fd where
    a: "leagues_award pid earned nd = Inr fd" and fl6: "length (leagues fd) = 6"
    and fd: "tiers_disjoint (leagues fd)"
    and f5: "tier_keys (leagues fd) 5 \<subseteq> insert pid (tier_keys (leagues nd) 5)"
    by blast
  have u: "update_leagues t pid earned (Some doc) = ([nd, fd], Inr fd)"
    using past r a by (simp add: update_leagues_def leagues_defaults_def)
  have k5': "\<forall>k < 5. \<forall>p. p \<in> tier_keys (leagues nd) k \<longleftrightarrow>
           (\<exists>l i. l < length (leagues doc) \<and> i < length (leagues doc ! l)
                 \<and> p = fst (leagues doc ! l ! i)
                 \<and> place l (Suc i) (length (leagues doc ! l)) = k)"
    using k5 by (simp add: sent_to_def)
  have f5': "tier_keys (leagues fd) 5 \<subseteq> {pid}" using f5 e5 by (simp add: tier_keys_def)
  from u l6 e5 k5' z d fl6 fd f5' show ?thesis by blast
qed

text \<open>
  C4 as first stated moves one half of every tier up and the other half down and ends
  with tier 5 empty.  In a tier 1 of two players the first, whose position is exactly
  half the size, stays in tier 1 and only the second moves, to tier 2; and the update
  ends with the account that earned the points in tier 5.
\<close>

theorem leagues_middle_player_stays:
  "update_leagues 100 (ustr ''pb-3'') 12
     (Some \<lparr>l_end = 0,
            leagues = [[], [(ustr ''pb-1'', 30), (ustr ''pb-2'', 10)], [], [], [], []]\<rparr>)
   = ([\<lparr>l_end = 604900,
        leagues = [[], [(ustr ''pb-1'', 0)], [(ustr ''pb-2'', 0)], [], [], []]\<rparr>,
       \<lparr>l_end = 604900,
        leagues = [[], [(ustr ''pb-1'', 0)], [(ustr ''pb-2'', 0)], [], [], [(ustr ''pb-3'', 12)]]\<rparr>],
      Inr \<lparr>l_end = 604900,
        leagues = [[], [(ustr ''pb-1'', 0)], [(ustr ''pb-2'', 0)], [], [], [(ustr ''pb-3'', 12)]]\<rparr>)"
  by (simp add: update_leagues_def leagues_defaults_def leagues_rollover_def leagues_award_def
      assign_tier_def place_def dict_setdefault_def dict_value_def sorted_desc_def Let_def
      eval_nat_numeral ustr_def)

text \<open>
  C4, at a ladder whose tier 1 holds three players: the first goes to tier 0, the two
  others to tier 2.
\<close>

theorem leagues_window_close_witness:
  "length [[], [(ustr ''pb-1'', 30 :: int), (ustr ''pb-2'', 20), (ustr ''pb-3'', 10)]] \<le> 6
   \<and> (0 :: rat) < 100
   \<and> tiers_wf [[], [(ustr ''pb-1'', 30), (ustr ''pb-2'', 20), (ustr ''pb-3'', 10)]]
   \<and> tiers_disjoint [[], [(ustr ''pb-1'', 30), (ustr ''pb-2'', 20), (ustr ''pb-3'', 10)]]
   \<and> update_leagues 100 (ustr ''pb-4'') 12
        (Some \<lparr>l_end = 0,
               leagues = [[], [(ustr ''pb-1'', 30), (ustr ''pb-2'', 20), (ustr ''pb-3'', 10)]]\<rparr>)
      = ([\<lparr>l_end = 604900,
           leagues = [[(ustr ''pb-1'', 0)], [], [(ustr ''pb-2'', 0), (ustr ''pb-3'', 0)], [], [], []]\<rparr>,
          \<lparr>l_end = 604900,
           leagues = [[(ustr ''pb-1'', 0)], [], [(ustr ''pb-2'', 0), (ustr ''pb-3'', 0)], [], [],
                      [(ustr ''pb-4'', 12)]]\<rparr>],
         Inr \<lparr>l_end = 604900,
           leagues = [[(ustr ''pb-1'', 0)], [], [(ustr ''pb-2'', 0), (ustr ''pb-3'', 0)], [], [],
                      [(ustr ''pb-4'', 12)]]\<rparr>)
   \<and> (\<exists>nd fd. update_leagues 100 (ustr ''pb-4'') 12
        (Some \<lparr>l_end = 0,
               leagues = [[], [(ustr ''pb-1'', 30), (ustr ''pb-2'', 20), (ustr ''pb-3'', 10)]]\<rparr>)
          = ([nd, fd], Inr fd)
        \<and> length (leagues nd) = 6 \<and> leagues nd ! 5 = [] \<and> tiers_disjoint (leagues nd)
        \<and> tiers_disjoint (leagues fd) \<and> tier_keys (leagues fd) 5 \<subseteq> {ustr ''pb-4''})"
proof -
  let ?old = "[[], [(ustr ''pb-1'', 30 :: int), (ustr ''pb-2'', 20), (ustr ''pb-3'', 10)]]"
  let ?doc = "\<lparr>l_end = 0, leagues = ?old\<rparr>"
  have h1: "length (leagues ?doc) \<le> 6" by simp
  have h2: "l_end ?doc < 100" by simp
  have h3: "tiers_wf (leagues ?doc)"
    by (simp add: tiers_wf_def less_Suc_eq ustr_def)
  have h4: "tiers_disjoint (leagues ?doc)"
    by (simp add: tiers_disjoint_def tier_keys_def less_Suc_eq)
  have run: "update_leagues 100 (ustr ''pb-4'') 12 (Some ?doc)
      = ([\<lparr>l_end = 604900,
           leagues = [[(ustr ''pb-1'', 0)], [], [(ustr ''pb-2'', 0), (ustr ''pb-3'', 0)], [], [], []]\<rparr>,
          \<lparr>l_end = 604900,
           leagues = [[(ustr ''pb-1'', 0)], [], [(ustr ''pb-2'', 0), (ustr ''pb-3'', 0)], [], [],
                      [(ustr ''pb-4'', 12)]]\<rparr>],
         Inr \<lparr>l_end = 604900,
           leagues = [[(ustr ''pb-1'', 0)], [], [(ustr ''pb-2'', 0), (ustr ''pb-3'', 0)], [], [],
                      [(ustr ''pb-4'', 12)]]\<rparr>)"
    by (simp add: update_leagues_def leagues_defaults_def leagues_rollover_def leagues_award_def
        assign_tier_def place_def dict_setdefault_def dict_value_def sorted_desc_def Let_def
        eval_nat_numeral ustr_def)
  from leagues_window_close [OF h1 h2 h3 h4, of "ustr ''pb-4''" 12]
  have ex: "\<exists>nd fd. update_leagues 100 (ustr ''pb-4'') 12 (Some ?doc) = ([nd, fd], Inr fd)
        \<and> length (leagues nd) = 6 \<and> leagues nd ! 5 = [] \<and> tiers_disjoint (leagues nd)
        \<and> tiers_disjoint (leagues fd) \<and> tier_keys (leagues fd) 5 \<subseteq> {ustr ''pb-4''}"
    by blast
  have g1: "length ?old \<le> 6" by simp
  have g2: "(0 :: rat) < 100" by simp
  from h3 have g3: "tiers_wf ?old" by simp
  from h4 have g4: "tiers_disjoint ?old" by simp
  from g1 g2 g3 g4 run ex show ?thesis by blast
qed

end
